theory Spec2Isabelle
  imports Complex_Main "HOL-Library.AList"
begin

section \<open>Strings and exceptions of the modelled Python code\<close>

text \<open>
  Python strings are sequences of Unicode code points; the model writes a string as the
  list of its code points, and \<open>cp\<close> gives the code points of an ASCII literal.
\<close>

type_synonym ustring = "nat list"

definition cp :: "string \<Rightarrow> ustring" where
  "cp s = map of_char s"

text \<open>
  An exception is a value of \<open>py_error\<close>, and a function that can raise returns
  \<open>py_error + 'a\<close> with the exception on the left. \<open>ValueError\<close> carries its message.
  \<open>ExternalError\<close> is any exception that comes out of a call into a library the
  repository only uses (file access, pandoc, pdfplumber, the model hub).
\<close>

datatype py_error = TypeError | ValueError ustring | KeyError | IndexError | ExternalError

section \<open>Label Aligner (utils/encoder.py)\<close>

text \<open>
  The tokenizer is an external collaborator: \<open>tokenize_and_align_labels\<close> receives it as
  its first argument and calls it on the word list (pre-split mode, truncation at 256).
  What the aligner reads of its result is the list \<open>word_ids\<close>: for every sub-word
  position either \<open>None\<close> (a special token) or the index of the originating word.
\<close>

record tokenized =
  input_ids :: "int list"
  attention_mask :: "int list"
  word_ids :: "nat option list"

record encoding = tokenized +
  labels :: "int list"
  label_mask :: "int list"

text \<open>Python's \<open>tags[word_id]\<close> for a non-negative index: IndexError out of range.\<close>

definition tag_at :: "int list \<Rightarrow> nat \<Rightarrow> py_error + int" where
  "tag_at tags w = (if w < length tags then Inr (tags ! w) else Inl IndexError)"

text \<open>
  The \<open>for word_id in word_ids\<close> loop, with its three pieces of state: the two lists
  appended to and \<open>prev_word_id\<close>.
\<close>

fun align_loop ::
  "int list \<Rightarrow> nat option list \<Rightarrow> int list \<Rightarrow> int list \<Rightarrow> nat option
     \<Rightarrow> py_error + (int list \<times> int list)" where
  "align_loop tags [] labs msk prev = Inr (labs, msk)"
| "align_loop tags (None # rest) labs msk prev =
     align_loop tags rest (labs @ [0]) (msk @ [0]) None"
| "align_loop tags (Some w # rest) labs msk prev =
     (if Some w \<noteq> prev then
        (case tag_at tags w of
           Inl e \<Rightarrow> Inl e
         | Inr t \<Rightarrow> align_loop tags rest (labs @ [t]) (msk @ [1]) (Some w))
      else align_loop tags rest (labs @ [0]) (msk @ [0]) (Some w))"

definition tokenize_and_align_labels ::
  "('w list \<Rightarrow> tokenized) \<Rightarrow> 'w list \<Rightarrow> int list \<Rightarrow> py_error + encoding" where
  "tokenize_and_align_labels tokenizer tokens tags =
     (let tk = tokenizer tokens in
      case align_loop tags (word_ids tk) [] [] None of
        Inl e \<Rightarrow> Inl e
      | Inr (labs, msk) \<Rightarrow>
          Inr (tokenized.extend tk \<lparr>labels = labs, label_mask = msk\<rparr>))"

text \<open>
  The value of \<open>prev_word_id\<close> when the loop reaches position \<open>i\<close>: \<open>None\<close> at the
  first position, the previous position's entry afterwards.
\<close>

definition prev_word_id :: "nat option list \<Rightarrow> nat \<Rightarrow> nat option" where
  "prev_word_id wids i = (case i of 0 \<Rightarrow> None | Suc j \<Rightarrow> wids ! j)"

text \<open>
  The tokenizer's contract on the sub-words of one word: they are adjacent. Once the run
  of positions of word \<open>w\<close> has ended, \<open>w\<close> does not come back.
\<close>

fun word_runs :: "nat option list \<Rightarrow> bool" where
  "word_runs [] = True"
| "word_runs (None # rest) = word_runs rest"
| "word_runs (Some w # rest) =
     (Some w \<notin> set (dropWhile (\<lambda>x. x = Some w) rest) \<and> word_runs rest)"

section \<open>Evaluation Aggregator (utils/evaluation.py)\<close>

text \<open>
  A batch is the triple the dataset yields: the model input and the matrices of true
  label ids and of loss-mask weights (one row per example). The parameter \<open>model\<close>
  stands for the composition \<open>tf.argmax(model(input, training=False).logits, axis=-1)\<close>:
  it maps a batch input to the matrix of predicted class ids. The label vocabulary
  \<open>id2label\<close> is a dictionary; a missing key raises KeyError, an index outside a matrix
  raises IndexError.
\<close>

type_synonym 'a matrix = "'a list list"

definition shape0 :: "'a matrix \<Rightarrow> nat" where
  "shape0 m = length m"

definition shape1 :: "'a matrix \<Rightarrow> nat" where
  "shape1 m = (case m of [] \<Rightarrow> 0 | r # _ \<Rightarrow> length r)"

definition at2 :: "'a matrix \<Rightarrow> nat \<Rightarrow> nat \<Rightarrow> py_error + 'a" where
  "at2 m i j = (if i < length m \<and> j < length (m ! i) then Inr (m ! i ! j) else Inl IndexError)"

definition lookup :: "('k \<rightharpoonup> 'v) \<Rightarrow> 'k \<Rightarrow> py_error + 'v" where
  "lookup d k = (case d k of None \<Rightarrow> Inl KeyError | Some v \<Rightarrow> Inr v)"

text \<open>The inner loop \<open>for j in range(pred_ids.shape[1])\<close> of example \<open>i\<close>.\<close>

fun position_loop ::
  "(int \<rightharpoonup> string) \<Rightarrow> int matrix \<Rightarrow> int matrix \<Rightarrow> int matrix \<Rightarrow> nat \<Rightarrow> nat list
     \<Rightarrow> string list \<Rightarrow> string list \<Rightarrow> py_error + (string list \<times> string list)" where
  "position_loop id2label pred_ids label_ids weights i [] preds labs = Inr (preds, labs)"
| "position_loop id2label pred_ids label_ids weights i (j # js) preds labs =
     (case at2 weights i j of
        Inl e \<Rightarrow> Inl e
      | Inr wv \<Rightarrow>
          if wv = 0 then position_loop id2label pred_ids label_ids weights i js preds labs
          else
            (case at2 pred_ids i j of
               Inl e \<Rightarrow> Inl e
             | Inr p \<Rightarrow>
                 (case lookup id2label p of
                    Inl e \<Rightarrow> Inl e
                  | Inr pname \<Rightarrow>
                      (case at2 label_ids i j of
                         Inl e \<Rightarrow> Inl e
                       | Inr l \<Rightarrow>
                           (case lookup id2label l of
                              Inl e \<Rightarrow> Inl e
                            | Inr lname \<Rightarrow>
                                position_loop id2label pred_ids label_ids weights i js
                                  (preds @ [pname]) (labs @ [lname]))))))"

text \<open>
  The loop \<open>for i in range(pred_ids.shape[0])\<close>. The source appends the finished
  \<open>preds\<close> and \<open>labels\<close> of an example to the output collections, and then appends
  both a second time (lines 30 to 34).
\<close>

fun example_loop ::
  "(int \<rightharpoonup> string) \<Rightarrow> int matrix \<Rightarrow> int matrix \<Rightarrow> int matrix \<Rightarrow> nat list
     \<Rightarrow> string list list \<Rightarrow> string list list
     \<Rightarrow> py_error + (string list list \<times> string list list)" where
  "example_loop id2label pred_ids label_ids weights [] all_preds all_labels =
     Inr (all_preds, all_labels)"
| "example_loop id2label pred_ids label_ids weights (i # is) all_preds all_labels =
     (case position_loop id2label pred_ids label_ids weights i [0..<shape1 pred_ids] [] [] of
        Inl e \<Rightarrow> Inl e
      | Inr (preds, labs) \<Rightarrow>
          example_loop id2label pred_ids label_ids weights is
            ((all_preds @ [preds]) @ [preds]) ((all_labels @ [labs]) @ [labs]))"

text \<open>The loop \<open>for batch in dataset\<close>.\<close>

fun batch_loop ::
  "('inp \<Rightarrow> int matrix) \<Rightarrow> (int \<rightharpoonup> string) \<Rightarrow> ('inp \<times> int matrix \<times> int matrix) list
     \<Rightarrow> string list list \<Rightarrow> string list list
     \<Rightarrow> py_error + (string list list \<times> string list list)" where
  "batch_loop model id2label [] all_preds all_labels = Inr (all_preds, all_labels)"
| "batch_loop model id2label ((inp, true_labels, weights) # rest) all_preds all_labels =
     (let pred_ids = model inp in
      case example_loop id2label pred_ids true_labels weights [0..<shape0 pred_ids]
             all_preds all_labels of
        Inl e \<Rightarrow> Inl e
      | Inr (all_preds', all_labels') \<Rightarrow> batch_loop model id2label rest all_preds' all_labels')"

definition get_seqeval_input ::
  "('inp \<Rightarrow> int matrix) \<Rightarrow> ('inp \<times> int matrix \<times> int matrix) list \<Rightarrow> (int \<rightharpoonup> string)
     \<Rightarrow> py_error + (string list list \<times> string list list)" where
  "get_seqeval_input model dataset id2label = batch_loop model id2label dataset [] []"


text \<open>
  The label vocabulary as the training module builds it (models/jobbert.py, lines 47 to
  50): dictionaries are association lists in insertion order, a dictionary comprehension
  stores its items one after the other.
\<close>

definition jobbert_label_list :: "string list" where
  "jobbert_label_list = [''O'', ''B-SKILL'', ''I-SKILL'']"

definition jobbert_label2id :: "(string \<times> int) list" where
  "jobbert_label2id =
     fold (\<lambda>(i, l) d. AList.update l (int i) d) (enumerate 0 jobbert_label_list) []"

definition jobbert_id2label :: "(int \<times> string) list" where
  "jobbert_id2label = fold (\<lambda>(l, i) d. AList.update i l d) jobbert_label2id []"

section \<open>Document-to-text extraction (utils/input_to_text.py)\<close>

subsection \<open>The library functions the module calls\<close>

text \<open>
  \<open>str.lower\<close> on the ASCII letters: A to Z become a to z. Python also lowercases
  letters outside ASCII, which the model leaves as they are. No code point outside ASCII
  lowercases to a dot, a separator or one of the letters of \<open>docx\<close>, \<open>pdf\<close>, \<open>txt\<close>, so
  the comparison of a lowercased extension with these three is the same in the model
  and in Python.
\<close>

definition lower_cp :: "nat \<Rightarrow> nat" where
  "lower_cp c = (if 65 \<le> c \<and> c \<le> 90 then c + 32 else c)"

definition str_lower :: "ustring \<Rightarrow> ustring" where
  "str_lower s = map lower_cp s"

text \<open>
  The code points for which \<open>str.isspace\<close> holds; the regular expression class
  \<open>\s\<close> and \<open>str.strip\<close> both use this set.
\<close>

definition py_isspace :: "nat \<Rightarrow> bool" where
  "py_isspace c \<longleftrightarrow>
     (9 \<le> c \<and> c \<le> 13) \<or> (28 \<le> c \<and> c \<le> 32) \<or> c = 133 \<or> c = 160 \<or> c = 5760 \<or>
     (8192 \<le> c \<and> c \<le> 8202) \<or> c = 8232 \<or> c = 8233 \<or> c = 8239 \<or> c = 8287 \<or> c = 12288"

text \<open>
  The class \<open>\d\<close>: the decimal digits of Unicode (category Nd, version 14), which lie
  in runs of ten code points, \<open>0\<close> to \<open>9\<close> of one script each, and one run of fifty
  (the mathematical digits). Each run is given by its first code point and its length.
\<close>

definition digit_runs :: "(nat \<times> nat) list" where
  "digit_runs =
    [(48, 10), (1632, 10), (1776, 10), (1984, 10), (2406, 10), (2534, 10), (2662, 10),
     (2790, 10), (2918, 10), (3046, 10), (3174, 10), (3302, 10), (3430, 10), (3558, 10),
     (3664, 10), (3792, 10), (3872, 10), (4160, 10), (4240, 10), (6112, 10), (6160, 10),
     (6470, 10), (6608, 10), (6784, 10), (6800, 10), (6992, 10), (7088, 10), (7232, 10),
     (7248, 10), (42528, 10), (43216, 10), (43264, 10), (43472, 10), (43504, 10),
     (43600, 10), (44016, 10), (65296, 10), (66720, 10), (68912, 10), (69734, 10),
     (69872, 10), (69942, 10), (70096, 10), (70384, 10), (70736, 10), (70864, 10),
     (71248, 10), (71360, 10), (71472, 10), (71904, 10), (72016, 10), (72784, 10),
     (73040, 10), (73120, 10), (92768, 10), (92864, 10), (93008, 10), (120782, 50),
     (123200, 10), (123632, 10), (125264, 10), (130032, 10)]"

definition re_digit :: "nat \<Rightarrow> bool" where
  "re_digit c \<longleftrightarrow> list_ex (\<lambda>(s, n). s \<le> c \<and> c < s + n) digit_runs"

text \<open>
  \<open>re.sub(r'X+', repl, text)\<close> for a character class \<open>X\<close>: scanning from the left, every
  maximal run of characters of the class is replaced by \<open>repl\<close>.
\<close>

function sub_plus :: "(nat \<Rightarrow> bool) \<Rightarrow> ustring \<Rightarrow> ustring \<Rightarrow> ustring" where
  "sub_plus X repl [] = []"
| "sub_plus X repl (c # cs) =
     (if X c then repl @ sub_plus X repl (dropWhile X cs) else c # sub_plus X repl cs)"
  by pat_completeness auto
termination
  by (relation "measure (\<lambda>(X, repl, s). length s)")
     (auto simp: less_Suc_eq_le length_dropWhile_le)

text \<open>
  A match of \<open>page \d+ of \d+\<close> at the start of \<open>s\<close>, as its length. Both \<open>\d+\<close> are
  greedy, and giving a digit back never helps: the next pattern character is a space.
\<close>

definition match_page_footer :: "ustring \<Rightarrow> nat option" where
  "match_page_footer s =
     (if take 5 s = cp ''page '' then
        (let r1 = drop 5 s; d1 = takeWhile re_digit r1; r2 = drop (length d1) r1 in
         if d1 \<noteq> [] \<and> take 4 r2 = cp '' of '' then
           (let d2 = takeWhile re_digit (drop 4 r2) in
            if d2 \<noteq> [] then Some (5 + length d1 + 4 + length d2) else None)
         else None)
      else None)"

text \<open>
  \<open>re.sub(r'page \d+ of \d+', '', text)\<close>: one pass from the left; after a match the scan
  goes on behind it. A match of length \<open>n\<close> at \<open>c # cs\<close> takes \<open>c\<close> and \<open>n - 1\<close>
  characters of \<open>cs\<close>.
\<close>

fun sub_page_footer :: "ustring \<Rightarrow> ustring" where
  "sub_page_footer [] = []"
| "sub_page_footer (c # cs) =
     (case match_page_footer (c # cs) of
        Some n \<Rightarrow> sub_page_footer (drop (n - 1) cs)
      | None \<Rightarrow> c # sub_page_footer cs)"

text \<open>The six glyphs of the class in line 18: four bullets, the en dash and the em dash.\<close>

definition is_glyph :: "nat \<Rightarrow> bool" where
  "is_glyph c \<longleftrightarrow> c = 8226 \<or> c = 9679 \<or> c = 9642 \<or> c = 9632 \<or> c = 8211 \<or> c = 8212"

definition strip :: "ustring \<Rightarrow> ustring" where
  "strip s = rev (dropWhile py_isspace (rev (dropWhile py_isspace s)))"

text \<open>
  \<open>os.path.splitext\<close>, after the standard library's \<open>genericpath._splitext\<close>:
  \<open>rfind\<close> is the last index of a character or \<open>-1\<close>; the extension starts at the last
  dot, provided that dot lies behind the last separator and some character between the
  separator and the dot is not a dot. POSIX has the separator \<open>/\<close> (code point 47);
  Windows has the backslash (92) and the alternative separator \<open>/\<close>.
\<close>

fun rfind :: "nat \<Rightarrow> ustring \<Rightarrow> int" where
  "rfind c [] = - 1"
| "rfind c (x # xs) =
     (let r = rfind c xs in if 0 \<le> r then r + 1 else if x = c then 0 else - 1)"

function skip_leading_dots :: "ustring \<Rightarrow> nat \<Rightarrow> nat \<Rightarrow> nat \<Rightarrow> (ustring \<times> ustring) option" where
  "skip_leading_dots p extsep filenameIndex dotIndex =
     (if filenameIndex < dotIndex then
        (if take 1 (drop filenameIndex p) \<noteq> [extsep] then Some (take dotIndex p, drop dotIndex p)
         else skip_leading_dots p extsep (Suc filenameIndex) dotIndex)
      else None)"
  by pat_completeness auto
termination
  by (relation "measure (\<lambda>(p, extsep, filenameIndex, dotIndex). dotIndex - filenameIndex)") auto

declare skip_leading_dots.simps [simp del]

definition genericpath_splitext ::
  "ustring \<Rightarrow> nat \<Rightarrow> nat option \<Rightarrow> nat \<Rightarrow> ustring \<times> ustring" where
  "genericpath_splitext p sep altsep extsep =
     (let sepIndex = rfind sep p;
          sepIndex = (case altsep of None \<Rightarrow> sepIndex | Some a \<Rightarrow> max sepIndex (rfind a p));
          dotIndex = rfind extsep p
      in if dotIndex > sepIndex then
           (case skip_leading_dots p extsep (nat (sepIndex + 1)) (nat dotIndex) of
              Some r \<Rightarrow> r
            | None \<Rightarrow> (p, []))
         else (p, []))"

datatype os_flavour = Posix | Nt

fun splitext :: "os_flavour \<Rightarrow> ustring \<Rightarrow> ustring \<times> ustring" where
  "splitext Posix p = genericpath_splitext p 47 None 46"
| "splitext Nt p = genericpath_splitext p 92 (Some 47) 46"

text \<open>
  The calls that leave the repository: pandoc's conversion, pdfplumber's pages with the
  text extracted from each (\<open>None\<close> where \<open>extract_text\<close> returns nothing), and reading a
  file as UTF-8. Each gives \<open>None\<close> when the call raises.
\<close>

record externals =
  pandoc_convert_file :: "ustring \<Rightarrow> ustring option"
  pdfplumber_pages :: "ustring \<Rightarrow> ustring option list option"
  open_read :: "ustring \<Rightarrow> ustring option"

subsection \<open>The module's functions\<close>

definition clean_cv_text :: "ustring \<Rightarrow> ustring" where
  "clean_cv_text text =
     (let text = str_lower text;
          text = sub_plus (\<lambda>c. c = 10) [10] text;
          text = sub_plus py_isspace [32] text;
          text = sub_page_footer text;
          text = map (\<lambda>c. if is_glyph c then 32 else c) text
      in strip text)"

definition docx_to_text :: "externals \<Rightarrow> ustring \<Rightarrow> py_error + ustring" where
  "docx_to_text ext filepath =
     (case pandoc_convert_file ext filepath of None \<Rightarrow> Inl ExternalError | Some text \<Rightarrow> Inr text)"

definition pdf_to_text :: "externals \<Rightarrow> ustring \<Rightarrow> py_error + ustring" where
  "pdf_to_text ext filepath =
     (case pdfplumber_pages ext filepath of
        None \<Rightarrow> Inl ExternalError
      | Some pages \<Rightarrow>
          Inr (fold (\<lambda>page text. text @ (case page of None \<Rightarrow> [] | Some t \<Rightarrow> t)) pages []))"

definition unsupported_message :: "ustring \<Rightarrow> ustring" where
  "unsupported_message ty = cp ''Unsupported '' @ [39] @ ty @ [39] @ cp '' file type.''"

definition extract_text :: "os_flavour \<Rightarrow> externals \<Rightarrow> ustring \<Rightarrow> py_error + ustring" where
  "extract_text os ext filepath =
     (let ty = str_lower (snd (splitext os filepath)) in
      if ty = cp ''.docx'' then
        (case docx_to_text ext filepath of Inl e \<Rightarrow> Inl e | Inr t \<Rightarrow> Inr (clean_cv_text t))
      else if ty = cp ''.pdf'' then
        (case pdf_to_text ext filepath of Inl e \<Rightarrow> Inl e | Inr t \<Rightarrow> Inr (clean_cv_text t))
      else if ty = cp ''.txt'' then
        (case open_read ext filepath of
           None \<Rightarrow> Inl ExternalError
         | Some t \<Rightarrow> Inr (clean_cv_text t))
      else Inl (ValueError (unsupported_message ty)))"

section \<open>Inference pipeline and command-line entry point\<close>

text \<open>
  The values that \<open>run_main_pipeline\<close> passes around: the extracted text, the model and
  the tokenizer loaded from the hub, and a callable text-to-skills pipeline (\<open>None\<close> when
  the pipeline raises). An extracted skill is the dictionary the pipeline returns, read
  at its keys \<open>word\<close> and \<open>score\<close>.
\<close>

record 's skill =
  word :: ustring
  score :: 's

datatype ('m, 't, 's) py_value =
    Str ustring
  | Model 'm
  | Tokenizer 't
  | Callable "ustring \<Rightarrow> 's skill list option"

text \<open>
  A Python call of a function whose parameters are plain names without defaults: the
  positional arguments are bound to the first parameters, the keyword arguments by name.
  The call raises TypeError when there are too many positional arguments, when a keyword
  is not a parameter name, when a parameter gets two values, and when a parameter gets
  none.
\<close>

definition bind_arguments ::
  "string list \<Rightarrow> 'v list \<Rightarrow> (string \<times> 'v) list \<Rightarrow> py_error + (string \<rightharpoonup> 'v)" where
  "bind_arguments params args kwargs =
     (if length params < length args then Inl TypeError
      else if list_ex (\<lambda>(k, v). k \<notin> set params) kwargs then Inl TypeError
      else if list_ex (\<lambda>(k, v). k \<in> set (take (length args) params)) kwargs then Inl TypeError
      else if \<not> distinct (map fst kwargs) then Inl TypeError
      else if list_ex (\<lambda>p. p \<notin> set (map fst kwargs)) (drop (length args) params)
        then Inl TypeError
      else Inr (map_of (zip params args @ kwargs)))"

text \<open>
  services/skills_extraction.py, \<open>def extract_skills(input, pipeline): return
  pipeline(input)\<close>, as a call with the arguments the caller wrote. Calling a string
  raises TypeError; what a pipeline does with an input other than text, and what calling
  a model or a tokenizer object does, happens inside the library.
\<close>

definition extract_skills ::
  "('m, 't, 's) py_value list \<Rightarrow> (string \<times> ('m, 't, 's) py_value) list
     \<Rightarrow> py_error + 's skill list" where
  "extract_skills args kwargs =
     (case bind_arguments [''input'', ''pipeline''] args kwargs of
        Inl e \<Rightarrow> Inl e
      | Inr env \<Rightarrow>
          (case env ''pipeline'' of
             Some (Callable f) \<Rightarrow>
               (case env ''input'' of
                  Some (Str s) \<Rightarrow>
                    (case f s of None \<Rightarrow> Inl ExternalError | Some skills \<Rightarrow> Inr skills)
                | _ \<Rightarrow> Inl ExternalError)
           | Some (Str s) \<Rightarrow> Inl TypeError
           | _ \<Rightarrow> Inl ExternalError))"

text \<open>
  models/skillner.py: the tokenizer and the model are fetched from the hub by name, the
  tokenizer first; a fetch that fails raises.
\<close>

record ('m, 't) hub =
  tokenizer_from_pretrained :: "string \<Rightarrow> 't option"
  model_from_pretrained :: "string \<Rightarrow> 'm option"

definition load_skillner ::
  "('m, 't) hub \<Rightarrow> py_error + (string \<times> ('m, 't, 's) py_value) list" where
  "load_skillner h =
     (case tokenizer_from_pretrained h ''ihk/skillner'' of
        None \<Rightarrow> Inl ExternalError
      | Some tokenizer \<Rightarrow>
          (case model_from_pretrained h ''ihk/skillner'' of
             None \<Rightarrow> Inl ExternalError
           | Some model \<Rightarrow> Inr [(''tokenizer'', Tokenizer tokenizer), (''model'', Model model)]))"

text \<open>The decimal digits of an index, for the printed line.\<close>

function str_nat :: "nat \<Rightarrow> ustring" where
  "str_nat n = (if n < 10 then [48 + n] else str_nat (n div 10) @ [48 + n mod 10])"
  by pat_completeness auto
termination
  by (relation "measure (\<lambda>n. n)") auto

declare str_nat.simps [simp del]

text \<open>
  main.py, \<open>run_main_pipeline\<close>. The result is the list of lines printed to standard
  output, or the exception that ends the run. \<open>str_score\<close> is Python's rendering of a
  score in the formatted line. The user identifier is not used; the user type only sets
  the unused flag \<open>isJobSeeker\<close>.
\<close>

definition run_main_pipeline ::
  "os_flavour \<Rightarrow> externals \<Rightarrow> ('m, 't) hub \<Rightarrow> ('s \<Rightarrow> ustring) \<Rightarrow> ustring \<Rightarrow> int \<Rightarrow> ustring
     \<Rightarrow> py_error + ustring list" where
  "run_main_pipeline os ext h str_score filepath userID userType =
     (case extract_text os ext filepath of
        Inl e \<Rightarrow> Inl e
      | Inr input \<Rightarrow>
          (case load_skillner h of
             Inl e \<Rightarrow> Inl e
           | Inr loaded \<Rightarrow>
               (case lookup (map_of loaded) ''model'' of
                  Inl e \<Rightarrow> Inl e
                | Inr skillner \<Rightarrow>
                    (case lookup (map_of loaded) ''tokenizer'' of
                       Inl e \<Rightarrow> Inl e
                     | Inr tokenizer \<Rightarrow>
                         (case extract_skills [Str input]
                                 [(''model'', skillner), (''tokenizer'', tokenizer)] of
                            Inl e \<Rightarrow> Inl e
                          | Inr extracted_skills \<Rightarrow>
                              (let isJobSeeker = (userType \<noteq> cp ''company'') in
                               Inr (map (\<lambda>(i, skill).
                                      str_nat i @ cp ''. skill: '' @ word skill @
                                      cp '', confidence: '' @ str_score (score skill))
                                    (enumerate 0 extracted_skills))))))))"

section \<open>Batch Dataset Builder (utils/dataset.py)\<close>

text \<open>
  \<open>tf.data.Dataset.from_tensor_slices\<close> and \<open>Dataset.padded_batch\<close> are TensorFlow's, not
  code of the repository. The model keeps of them what decides the result of
  \<open>make_dataset\<close>, with the exception classes TensorFlow raises (messages are not
  modelled).

  A column of the source is a Python list of lists of integers. TensorFlow converts it
  to one tensor: rows of unequal length are refused with ValueError; integers give an
  integer tensor, and a column without any number in it (no rows, or only empty rows)
  gives a float tensor. The dataset has one element per row, so the components of an
  element have rank 1, or rank 0 when the column has no rows at all. All columns must
  have the same number of rows.
\<close>

datatype tf_error = TF_ValueError | TF_TypeError | TF_InvalidArgumentError

datatype dtype = DInt | DFloat

datatype py_number = PyInt int | PyFloat real

definition rectangular :: "'a list list \<Rightarrow> bool" where
  "rectangular rows =
     (case rows of [] \<Rightarrow> True | r # rs \<Rightarrow> list_all (\<lambda>x. length x = length r) rs)"

definition column_dtype :: "int list list \<Rightarrow> dtype" where
  "column_dtype rows = (if concat rows = [] then DFloat else DInt)"

definition component_rank :: "int list list \<Rightarrow> nat" where
  "component_rank rows = (if rows = [] then 0 else 1)"

record tf_dataset =
  elements :: "(int list \<times> int list \<times> int list \<times> int list) list"
  element_ranks :: "nat list"
  element_dtypes :: "dtype list"

definition from_tensor_slices ::
  "int list list \<Rightarrow> int list list \<Rightarrow> int list list \<Rightarrow> int list list
     \<Rightarrow> tf_error + tf_dataset" where
  "from_tensor_slices xs ys zs ws =
     (if list_all rectangular [xs, ys, zs, ws] \<and>
         list_all (\<lambda>c. length c = length xs) [ys, zs, ws]
      then Inr \<lparr>elements = zip xs (zip ys (zip zs ws)),
                element_ranks = map component_rank [xs, ys, zs, ws],
                element_dtypes = map column_dtype [xs, ys, zs, ws]\<rparr>
      else Inl TF_ValueError)"

text \<open>
  \<open>padded_batch\<close> with the padded shapes \<open>[None]\<close> for every component, as the source
  passes them: a component whose rank is not 1 is refused with ValueError; then a
  padding value whose type is not the type of its component is refused with TypeError
  (the Python number \<open>0\<close> is an integer, \<open>0.0\<close> a float); a batch size below 1 is an
  invalid argument. Otherwise the elements are grouped into chunks of the batch size in
  their order, the last chunk possibly smaller, and within a chunk every component is
  padded at the end, with its padding value, to its greatest length in the chunk.
\<close>

definition padding_dtype :: "py_number \<Rightarrow> dtype" where
  "padding_dtype p = (case p of PyInt v \<Rightarrow> DInt | PyFloat v \<Rightarrow> DFloat)"

definition padding_int :: "py_number \<Rightarrow> int" where
  "padding_int p = (case p of PyInt v \<Rightarrow> v | PyFloat v \<Rightarrow> 0)"

function batched :: "nat \<Rightarrow> 'a list \<Rightarrow> 'a list list" where
  "batched n xs = (if n = 0 \<or> xs = [] then [] else take n xs # batched n (drop n xs))"
  by pat_completeness auto
termination
  by (relation "measure (\<lambda>(n, xs). length xs)") auto

declare batched.simps [simp del]

definition pad_to :: "nat \<Rightarrow> 'a \<Rightarrow> 'a list \<Rightarrow> 'a list" where
  "pad_to n v xs = xs @ replicate (n - length xs) v"

definition max_length :: "'a list list \<Rightarrow> nat" where
  "max_length rows = fold (\<lambda>r m. max (length r) m) rows 0"

definition pad_rows :: "'a \<Rightarrow> 'a list list \<Rightarrow> 'a list list" where
  "pad_rows v rows = map (pad_to (max_length rows) v) rows"

record batch =
  b_input_ids :: "int matrix"
  b_attention_mask :: "int matrix"
  b_labels :: "int matrix"
  b_weights :: "int matrix"

definition padded_batch ::
  "nat \<Rightarrow> tf_dataset \<Rightarrow> py_number \<Rightarrow> py_number \<Rightarrow> py_number \<Rightarrow> py_number
     \<Rightarrow> tf_error + batch list" where
  "padded_batch batch_size ds pad_ids pad_attention pad_labels pad_weights =
     (if list_ex (\<lambda>r. r \<noteq> 1) (element_ranks ds) then Inl TF_ValueError
      else if map padding_dtype [pad_ids, pad_attention, pad_labels, pad_weights]
                \<noteq> element_dtypes ds
        then Inl TF_TypeError
      else if batch_size = 0 then Inl TF_InvalidArgumentError
      else Inr (map (\<lambda>chunk.
             \<lparr>b_input_ids = pad_rows (padding_int pad_ids) (map (\<lambda>(i, a, l, w). i) chunk),
              b_attention_mask =
                pad_rows (padding_int pad_attention) (map (\<lambda>(i, a, l, w). a) chunk),
              b_labels = pad_rows (padding_int pad_labels) (map (\<lambda>(i, a, l, w). l) chunk),
              b_weights = pad_rows (padding_int pad_weights) (map (\<lambda>(i, a, l, w). w) chunk)\<rparr>)
           (batched batch_size (elements ds))))"

text \<open>
  \<open>make_dataset\<close> itself: the four columns are read off the encodings, sliced, and
  batched with the padding values \<open>0\<close>, \<open>0\<close>, \<open>0\<close> and \<open>0.0\<close>; prefetching does not change
  the batches. The batch size is an optional argument with default 16.
\<close>

definition make_dataset :: "encoding list \<Rightarrow> nat option \<Rightarrow> tf_error + batch list" where
  "make_dataset encodings batch_size_arg =
     (let batch_size = (case batch_size_arg of None \<Rightarrow> 16 | Some b \<Rightarrow> b);
          ids = map input_ids encodings;
          attention = map attention_mask encodings;
          labs = map labels encodings;
          weights = map label_mask encodings
      in case from_tensor_slices ids attention labs weights of
           Inl e \<Rightarrow> Inl e
         | Inr ds \<Rightarrow> padded_batch batch_size ds (PyInt 0) (PyInt 0) (PyInt 0) (PyFloat 0))"

section \<open>Auxiliary functions for the proofs\<close>

text \<open>
  The Label Aligner's loop, position by position: \<open>pw\<close> is the value of
  \<open>prev_word_id\<close> at a position for a loop started with \<open>prev\<close>, \<open>emit\<close> the pair of
  label and mask bit one iteration appends, \<open>bad\<close> whether the iteration's tag lookup
  is out of range; \<open>emits\<close> and \<open>any_bad\<close> run them along the word indices.
\<close>

definition pw :: "nat option \<Rightarrow> nat option list \<Rightarrow> nat \<Rightarrow> nat option" where
  "pw prev wids i = (case i of 0 \<Rightarrow> prev | Suc j \<Rightarrow> wids ! j)"

definition emit :: "int list \<Rightarrow> nat option \<Rightarrow> nat option \<Rightarrow> int \<times> int" where
  "emit tags prev cur =
     (case cur of None \<Rightarrow> (0, 0)
      | Some w \<Rightarrow> if Some w \<noteq> prev then (tags ! w, 1) else (0, 0))"

definition bad :: "int list \<Rightarrow> nat option \<Rightarrow> nat option \<Rightarrow> bool" where
  "bad tags prev cur = (case cur of None \<Rightarrow> False | Some w \<Rightarrow> Some w \<noteq> prev \<and> length tags \<le> w)"

fun emits :: "int list \<Rightarrow> nat option \<Rightarrow> nat option list \<Rightarrow> (int \<times> int) list" where
  "emits tags prev [] = []"
| "emits tags prev (c # rest) = emit tags prev c # emits tags c rest"

fun any_bad :: "int list \<Rightarrow> nat option \<Rightarrow> nat option list \<Rightarrow> bool" where
  "any_bad tags prev [] = False"
| "any_bad tags prev (c # rest) = (bad tags prev c \<or> any_bad tags c rest)"




text \<open>
  For the proofs about \<open>splitext\<close>: the index of the last separator, whether a path
  has an extension, the separators of a flavour, and a stem whose last component has a
  character other than a dot (appending an extension to it gives a path with that
  extension).
\<close>

definition sep_index :: "os_flavour \<Rightarrow> ustring \<Rightarrow> int" where
  "sep_index os p = (case os of Posix \<Rightarrow> rfind 47 p | Nt \<Rightarrow> max (rfind 92 p) (rfind 47 p))"

definition has_ext :: "os_flavour \<Rightarrow> ustring \<Rightarrow> bool" where
  "has_ext os p \<longleftrightarrow>
     sep_index os p < rfind 46 p \<and>
     (\<exists>i. nat (sep_index os p + 1) \<le> i \<and> i < nat (rfind 46 p) \<and> p ! i \<noteq> 46)"

definition is_sep :: "os_flavour \<Rightarrow> nat \<Rightarrow> bool" where
  "is_sep os c \<longleftrightarrow> c = 47 \<or> (os = Nt \<and> c = 92)"

definition named_stem :: "os_flavour \<Rightarrow> ustring \<Rightarrow> bool" where
  "named_stem os stem \<longleftrightarrow>
     (\<exists>i. nat (sep_index os stem + 1) \<le> i \<and> i < length stem \<and> stem ! i \<noteq> 46)"

lemma align_loop_eq:
  "align_loop tags wids labs msk prev =
     (if any_bad tags prev wids then Inl IndexError
      else Inr (labs @ map fst (emits tags prev wids), msk @ map snd (emits tags prev wids)))"
proof (induction wids arbitrary: labs msk prev)
  case Nil
  then show ?case by simp
next
  case (Cons c rest)
  show ?case
  proof (cases c)
    case None
    then show ?thesis by (simp add: Cons.IH emit_def bad_def)
  next
    case (Some w)
    then show ?thesis by (simp add: Cons.IH emit_def bad_def tag_at_def)
  qed
qed

lemma length_emits: "length (emits tags prev wids) = length wids"
  by (induction wids arbitrary: prev) simp_all

lemma emits_nth:
  "i < length wids \<Longrightarrow> emits tags prev wids ! i = emit tags (pw prev wids i) (wids ! i)"
proof (induction wids arbitrary: prev i)
  case Nil
  then show ?case by simp
next
  case (Cons c rest)
  then show ?case by (cases i) (simp_all add: pw_def split: nat.splits)
qed

lemma any_bad_iff:
  "any_bad tags prev wids \<longleftrightarrow> (\<exists>i<length wids. bad tags (pw prev wids i) (wids ! i))"
proof (induction wids arbitrary: prev)
  case Nil
  then show ?case by simp
next
  case (Cons c rest)
  have "(\<exists>i<length (c # rest). bad tags (pw prev (c # rest) i) ((c # rest) ! i))
        \<longleftrightarrow> bad tags prev c \<or> (\<exists>i<length rest. bad tags (pw c rest i) (rest ! i))"
    (is "?L \<longleftrightarrow> ?R")
  proof
    assume ?L
    then obtain i where i: "i < length (c # rest)" "bad tags (pw prev (c # rest) i) ((c # rest) ! i)"
      by blast
    show ?R
    proof (cases i)
      case 0
      with i show ?thesis by (simp add: pw_def)
    next
      case (Suc j)
      with i have "j < length rest" "bad tags (pw c rest j) (rest ! j)"
        by (auto simp: pw_def split: nat.splits)
      then show ?thesis by blast
    qed
  next
    assume ?R
    then show ?L
    proof
      assume "bad tags prev c"
      then have "bad tags (pw prev (c # rest) 0) ((c # rest) ! 0)" by (simp add: pw_def)
      then show ?L by blast
    next
      assume "\<exists>i<length rest. bad tags (pw c rest i) (rest ! i)"
      then obtain j where j: "j < length rest" "bad tags (pw c rest j) (rest ! j)" by blast
      then have "Suc j < length (c # rest)" "bad tags (pw prev (c # rest) (Suc j)) ((c # rest) ! Suc j)"
        by (auto simp: pw_def split: nat.splits)
      then show ?L by blast
    qed
  qed
  with Cons.IH show ?case by simp
qed

lemma dropWhile_absent_prefix:
  assumes "y \<notin> set (dropWhile (\<lambda>x. x = y) xs)" and "m < length xs" and "xs ! m = y" and "k \<le> m"
  shows "xs ! k = y"
proof -
  let ?P = "\<lambda>x. x = y"
  have m: "m < length (takeWhile ?P xs)"
  proof (rule ccontr)
    assume "\<not> m < length (takeWhile ?P xs)"
    then have ge: "length (takeWhile ?P xs) \<le> m" by simp
    have "xs ! m = (takeWhile ?P xs @ dropWhile ?P xs) ! m" by simp
    also have "\<dots> = dropWhile ?P xs ! (m - length (takeWhile ?P xs))"
      using ge by (simp add: nth_append del: takeWhile_dropWhile_id)
    finally have "xs ! m = dropWhile ?P xs ! (m - length (takeWhile ?P xs))" .
    moreover have "m - length (takeWhile ?P xs) < length (dropWhile ?P xs)"
    proof -
      have "length (takeWhile ?P xs) + length (dropWhile ?P xs) = length xs"
        by (metis length_append takeWhile_dropWhile_id)
      then show ?thesis using ge assms(2) by linarith
    qed
    ultimately have "xs ! m \<in> set (dropWhile ?P xs)" by (metis nth_mem)
    with assms(1,3) show False by simp
  qed
  then have "k < length (takeWhile ?P xs)" using assms(4) by simp
  then have k: "k < length (takeWhile ?P xs)" .
  have "takeWhile ?P xs ! k = xs ! k" using k by (rule takeWhile_nth)
  moreover have "takeWhile ?P xs ! k \<in> set (takeWhile ?P xs)" using k by (rule nth_mem)
  ultimately show ?thesis by (metis set_takeWhileD)
qed

lemma word_runs_between:
  "word_runs xs \<Longrightarrow> i \<le> k \<Longrightarrow> k \<le> j \<Longrightarrow> j < length xs \<Longrightarrow> xs ! i = Some w \<Longrightarrow> xs ! j = Some w
     \<Longrightarrow> xs ! k = Some w"
proof (induction xs arbitrary: i j k)
  case Nil
  then show ?case by simp
next
  case (Cons x rest)
  have wr: "word_runs rest" using Cons.prems(1) by (cases x) simp_all
  show ?case
  proof (cases i)
    case 0
    then have x: "x = Some w" using Cons.prems by simp
    show ?thesis
    proof (cases k)
      case 0
      then show ?thesis using x by simp
    next
      case (Suc k')
      then obtain j' where j': "j = Suc j'" using Cons.prems(3) by (cases j) simp_all
      have "Some w \<notin> set (dropWhile (\<lambda>x. x = Some w) rest)" using Cons.prems(1) x by simp
      moreover have "j' < length rest" "rest ! j' = Some w" "k' \<le> j'"
        using Cons.prems j' Suc by simp_all
      ultimately have "rest ! k' = Some w" by (rule dropWhile_absent_prefix)
      then show ?thesis using Suc by simp
    qed
  next
    case (Suc i')
    then obtain k' j' where kj: "k = Suc k'" "j = Suc j'"
      using Cons.prems(2,3) by (cases k; cases j) simp_all
    have "rest ! k' = Some w"
      using Cons.IH [OF wr, of i' k' j'] Cons.prems Suc kj by simp
    then show ?thesis using kj by simp
  qed
qed

lemma prev_is_pw: "prev_word_id wids i = pw None wids i"
  by (simp add: prev_word_id_def pw_def)

lemma tokenize_and_align_labels_eq:
  "tokenize_and_align_labels tokenizer tokens tags =
     (let tk = tokenizer tokens in
      if any_bad tags None (word_ids tk) then Inl IndexError
      else Inr (tokenized.extend tk
        \<lparr>labels = map fst (emits tags None (word_ids tk)),
         label_mask = map snd (emits tags None (word_ids tk))\<rparr>))"
  by (simp add: tokenize_and_align_labels_def align_loop_eq Let_def)

lemma extend_fields:
  "input_ids (tokenized.extend tk \<lparr>labels = ls, label_mask = ms\<rparr>) = input_ids tk"
  "attention_mask (tokenized.extend tk \<lparr>labels = ls, label_mask = ms\<rparr>) = attention_mask tk"
  "word_ids (tokenized.extend tk \<lparr>labels = ls, label_mask = ms\<rparr>) = word_ids tk"
  "labels (tokenized.extend tk \<lparr>labels = ls, label_mask = ms\<rparr>) = ls"
  "label_mask (tokenized.extend tk \<lparr>labels = ls, label_mask = ms\<rparr>) = ms"
  by (simp_all add: tokenized.extend_def)

lemma in_range_not_bad:
  assumes "\<forall>w. Some w \<in> set wids \<longrightarrow> w < length tags"
  shows "\<not> any_bad tags prev wids"
proof -
  have "\<not> bad tags (pw prev wids i) (wids ! i)" if "i < length wids" for i
  proof (cases "wids ! i")
    case None
    then show ?thesis by (simp add: bad_def)
  next
    case (Some w)
    then have "Some w \<in> set wids" using that by (metis nth_mem)
    then have "w < length tags" using assms by blast
    then show ?thesis using Some by (simp add: bad_def)
  qed
  then show ?thesis by (simp add: any_bad_iff)
qed

lemma run_start_unique:
  assumes wr: "word_runs wids" and mem: "Some w \<in> set wids"
  shows "\<exists>i<length wids. wids ! i = Some w \<and> (\<forall>j<i. wids ! j \<noteq> Some w) \<and>
           {j. j < length wids \<and> wids ! j = Some w \<and> pw None wids j \<noteq> Some w} = {i}"
proof -
  define i where "i = (LEAST n. n < length wids \<and> wids ! n = Some w)"
  from mem obtain n where "n < length wids \<and> wids ! n = Some w" by (auto simp: in_set_conv_nth)
  then have i: "i < length wids \<and> wids ! i = Some w"
    unfolding i_def by (rule LeastI)
  have least: "wids ! j \<noteq> Some w" if "j < i" for j
  proof
    assume "wids ! j = Some w"
    moreover have "j < length wids" using that i by simp
    ultimately have "i \<le> j" unfolding i_def by (simp add: Least_le)
    with that show False by simp
  qed
  have start: "pw None wids i \<noteq> Some w"
  proof (cases i)
    case 0
    then show ?thesis by (simp add: pw_def)
  next
    case (Suc k)
    then have "wids ! k \<noteq> Some w" using least [of k] by simp
    then show ?thesis using Suc by (simp add: pw_def)
  qed
  have only: "j = i" if j: "j < length wids" "wids ! j = Some w" "pw None wids j \<noteq> Some w" for j
  proof (rule ccontr)
    assume ne: "j \<noteq> i"
    have "\<not> j < i" using least j(2) by blast
    with ne have lt: "i < j" by simp
    then obtain k where k: "j = Suc k" by (cases j) simp_all
    have "wids ! k = Some w"
      using word_runs_between [OF wr, of i k j w] lt k j i by simp
    with j(3) k show False by (simp add: pw_def)
  qed
  have "{j. j < length wids \<and> wids ! j = Some w \<and> pw None wids j \<noteq> Some w} = {i}"
    using i start only by blast
  with i least show ?thesis by blast
qed

text \<open>
  Claim C1. For an Example whose tag list is as long as its word list, and a sub-word
  sequence whose word indices all point into the word list, the Label Aligner returns
  an encoding that leaves the tokenizer's sequences as they are and adds one label and
  one loss-mask bit per position: label 0 and mask 0 where the position has no
  originating word; the word's own tag and mask 1 where the originating word differs
  from the one of the previous position (\<open>None\<close> before the first position); label 0 and
  mask 0 on a continuation sub-word. When the sub-words of each word are adjacent
  (\<open>word_runs\<close>), every word that has a position at all, that is every word that survives
  truncation, has exactly one position with mask 1, and it is the word's first position.
\<close>

theorem label_aligner_positions:
  assumes len: "length tags = length tokens"
    and rng: "\<forall>w. Some w \<in> set (word_ids (tokenizer tokens)) \<longrightarrow> w < length tokens"
  shows "\<exists>enc. tokenize_and_align_labels tokenizer tokens tags = Inr enc \<and>
     input_ids enc = input_ids (tokenizer tokens) \<and>
     attention_mask enc = attention_mask (tokenizer tokens) \<and>
     word_ids enc = word_ids (tokenizer tokens) \<and>
     length (labels enc) = length (word_ids enc) \<and>
     length (label_mask enc) = length (word_ids enc) \<and>
     (\<forall>i<length (word_ids enc).
        (case word_ids enc ! i of
           None \<Rightarrow> labels enc ! i = 0 \<and> label_mask enc ! i = 0
         | Some w \<Rightarrow>
             if Some w \<noteq> prev_word_id (word_ids enc) i
             then labels enc ! i = tags ! w \<and> label_mask enc ! i = 1
             else labels enc ! i = 0 \<and> label_mask enc ! i = 0)) \<and>
     (word_runs (word_ids enc) \<longrightarrow>
        (\<forall>w. Some w \<in> set (word_ids enc) \<longrightarrow>
           (\<exists>i<length (word_ids enc). word_ids enc ! i = Some w \<and>
              (\<forall>j<i. word_ids enc ! j \<noteq> Some w) \<and>
              {j. j < length (word_ids enc) \<and> word_ids enc ! j = Some w \<and> label_mask enc ! j = 1}
                = {i})))"
proof -
  define wids where "wids = word_ids (tokenizer tokens)"
  define enc where "enc = tokenized.extend (tokenizer tokens)
      \<lparr>labels = map fst (emits tags None wids), label_mask = map snd (emits tags None wids)\<rparr>"
  have ok: "\<not> any_bad tags None wids"
    using rng len unfolding wids_def by (intro in_range_not_bad) simp
  have res: "tokenize_and_align_labels tokenizer tokens tags = Inr enc"
    using ok by (simp add: tokenize_and_align_labels_eq Let_def enc_def wids_def)
  have f: "input_ids enc = input_ids (tokenizer tokens)"
    "attention_mask enc = attention_mask (tokenizer tokens)"
    "word_ids enc = wids"
    "labels enc = map fst (emits tags None wids)"
    "label_mask enc = map snd (emits tags None wids)"
    by (simp_all add: enc_def extend_fields wids_def)
  have lens: "length (labels enc) = length wids" "length (label_mask enc) = length wids"
    by (simp_all add: f length_emits)
  have pos: "case wids ! i of
           None \<Rightarrow> labels enc ! i = 0 \<and> label_mask enc ! i = 0
         | Some w \<Rightarrow>
             if Some w \<noteq> prev_word_id wids i
             then labels enc ! i = tags ! w \<and> label_mask enc ! i = 1
             else labels enc ! i = 0 \<and> label_mask enc ! i = 0" if "i < length wids" for i
    using that by (simp add: f length_emits emits_nth emit_def prev_is_pw split: option.splits)
  have msk: "label_mask enc ! j = 1 \<longleftrightarrow> pw None wids j \<noteq> Some w"
    if "j < length wids" "wids ! j = Some w" for j w
    using that by (simp add: f length_emits emits_nth emit_def)
  have runs: "\<exists>i<length wids. wids ! i = Some w \<and> (\<forall>j<i. wids ! j \<noteq> Some w) \<and>
       {j. j < length wids \<and> wids ! j = Some w \<and> label_mask enc ! j = 1} = {i}"
    if wr: "word_runs wids" and mem: "Some w \<in> set wids" for w
  proof -
    have "{j. j < length wids \<and> wids ! j = Some w \<and> label_mask enc ! j = 1}
        = {j. j < length wids \<and> wids ! j = Some w \<and> pw None wids j \<noteq> Some w}"
      using msk by blast
    then show ?thesis using run_start_unique [OF wr mem] by simp
  qed
  have w: "word_ids enc = word_ids (tokenizer tokens)"
    by (simp add: f wids_def)
  show ?thesis
    using res f(1,2) w lens pos runs unfolding f(3) [symmetric]
    by (intro exI [of _ enc]) blast
qed

text \<open>
  Claim C2. In every encoding the Label Aligner returns, a position whose loss-mask bit
  is 0 has label id 0.
\<close>

theorem label_zero_where_mask_zero:
  assumes "tokenize_and_align_labels tokenizer tokens tags = Inr enc"
    and "i < length (label_mask enc)" and "label_mask enc ! i = 0"
  shows "i < length (labels enc) \<and> labels enc ! i = 0"
proof -
  define wids where "wids = word_ids (tokenizer tokens)"
  from assms(1) have f: "labels enc = map fst (emits tags None wids)"
      "label_mask enc = map snd (emits tags None wids)"
    by (auto simp: tokenize_and_align_labels_eq Let_def extend_fields wids_def split: if_splits)
  have i: "i < length wids" using assms(2) by (simp add: f length_emits)
  have "snd (emit tags (pw None wids i) (wids ! i)) = 0"
    using assms(3) i by (simp add: f length_emits emits_nth)
  then have "fst (emit tags (pw None wids i) (wids ! i)) = 0"
    by (simp add: emit_def split: option.splits if_splits)
  then show ?thesis using i by (simp add: f length_emits emits_nth)
qed

text \<open>Tags beyond the word indices in use are never read.\<close>

lemma emits_take:
  assumes "\<forall>w. Some w \<in> set wids \<longrightarrow> w < n"
  shows "emits (take n tags) prev wids = emits tags prev wids"
  using assms
proof (induction wids arbitrary: prev)
  case Nil
  then show ?case by simp
next
  case (Cons c rest)
  have "emit (take n tags) prev c = emit tags prev c"
  proof (cases c)
    case None
    then show ?thesis by (simp add: emit_def)
  next
    case (Some w)
    then have "w < n" using Cons.prems by simp
    then show ?thesis using Some by (simp add: emit_def)
  qed
  moreover have "emits (take n tags) c rest = emits tags c rest"
    using Cons.IH Cons.prems by simp
  ultimately show ?case by simp
qed

text \<open>
  Claim C7, amended. The only failure of the Label Aligner is the IndexError of the tag
  lookup, and it occurs exactly when some position is the first sub-word of a word whose
  index is not below the length of the tag list. When every word index points into the
  word list and the tag list is at least as long as the word list, the aligner returns
  an encoding, and it is the encoding it returns for the tag list cut to the length of
  the word list: surplus tags are ignored.
\<close>

theorem aligner_raises_iff:
  "(tokenize_and_align_labels tokenizer tokens tags = Inl IndexError \<longleftrightarrow>
      (\<exists>i<length (word_ids (tokenizer tokens)). \<exists>w.
          word_ids (tokenizer tokens) ! i = Some w \<and>
          prev_word_id (word_ids (tokenizer tokens)) i \<noteq> Some w \<and> length tags \<le> w)) \<and>
   (\<forall>e. tokenize_and_align_labels tokenizer tokens tags = Inl e \<longrightarrow> e = IndexError) \<and>
   ((\<forall>w. Some w \<in> set (word_ids (tokenizer tokens)) \<longrightarrow> w < length tokens) \<and>
      length tokens \<le> length tags \<longrightarrow>
      (\<exists>enc. tokenize_and_align_labels tokenizer tokens tags = Inr enc \<and>
         tokenize_and_align_labels tokenizer tokens (take (length tokens) tags) = Inr enc))"
proof -
  define wids where "wids = word_ids (tokenizer tokens)"
  have bad: "bad tags p c \<longleftrightarrow> (\<exists>w. c = Some w \<and> p \<noteq> Some w \<and> length tags \<le> w)" for p c
    by (cases c) (auto simp: bad_def)
  have a: "tokenize_and_align_labels tokenizer tokens tags = Inl IndexError \<longleftrightarrow>
      (\<exists>i<length wids. \<exists>w. wids ! i = Some w \<and> prev_word_id wids i \<noteq> Some w \<and> length tags \<le> w)"
    by (auto simp: tokenize_and_align_labels_eq Let_def wids_def [symmetric] any_bad_iff bad prev_is_pw)
  have b: "\<forall>e. tokenize_and_align_labels tokenizer tokens tags = Inl e \<longrightarrow> e = IndexError"
    by (simp add: tokenize_and_align_labels_eq Let_def)
  have c: "\<exists>enc. tokenize_and_align_labels tokenizer tokens tags = Inr enc \<and>
         tokenize_and_align_labels tokenizer tokens (take (length tokens) tags) = Inr enc"
    if r: "\<forall>w. Some w \<in> set wids \<longrightarrow> w < length tokens" and l: "length tokens \<le> length tags"
  proof -
    have "\<forall>w. Some w \<in> set wids \<longrightarrow> w < length tags" using r l by fastforce
    then have ok: "\<not> any_bad tags None wids" by (rule in_range_not_bad)
    have "\<forall>w. Some w \<in> set wids \<longrightarrow> w < length (take (length tokens) tags)" using r l by simp
    then have ok': "\<not> any_bad (take (length tokens) tags) None wids" by (rule in_range_not_bad)
    have e: "emits (take (length tokens) tags) None wids = emits tags None wids"
      using r by (rule emits_take)
    show ?thesis using ok ok' e
      by (simp add: tokenize_and_align_labels_eq Let_def wids_def)
  qed
  show ?thesis using a b c unfolding wids_def by blast
qed

text \<open>
  The example scenario of the specification: three words, the second split into two
  sub-words, special tokens at both ends.
\<close>

theorem label_aligner_positions_witness:
  "\<exists>enc. tokenize_and_align_labels
       (\<lambda>ws. \<lparr>input_ids = [101, 3698, 4083, 2075, 3992, 102],
              attention_mask = [1, 1, 1, 1, 1, 1],
              word_ids = [None, Some 0, Some 1, Some 1, Some 2, None]\<rparr>)
       [''machine'', ''learning'', ''engineer''] [1, 2, 0] = Inr enc \<and>
     labels enc = [0, 1, 2, 0, 0, 0] \<and> label_mask enc = [0, 1, 1, 0, 1, 0] \<and>
     length (labels enc) = length (word_ids enc) \<and>
     {j. j < length (word_ids enc) \<and> word_ids enc ! j = Some 1 \<and> label_mask enc ! j = 1} = {2}"
proof -
  let ?tk = "\<lambda>ws::string list. \<lparr>input_ids = [101, 3698, 4083, 2075, 3992, 102],
              attention_mask = [1, 1, 1, 1, 1, 1],
              word_ids = [None, Some 0, Some 1, Some 1, Some 2, None]\<rparr>"
  let ?toks = "[''machine'', ''learning'', ''engineer'']"
  have h1: "length [1, 2, 0 :: int] = length ?toks" by simp
  have h2: "\<forall>w. Some w \<in> set (word_ids (?tk ?toks)) \<longrightarrow> w < length ?toks" by auto
  from label_aligner_positions [OF h1 h2] obtain enc where
    enc: "tokenize_and_align_labels ?tk ?toks [1, 2, 0] = Inr enc"
      and w: "word_ids enc = word_ids (?tk ?toks)"
      and l: "length (labels enc) = length (word_ids enc)"
      and r: "word_runs (word_ids enc) \<longrightarrow>
        (\<forall>w. Some w \<in> set (word_ids enc) \<longrightarrow>
           (\<exists>i<length (word_ids enc). word_ids enc ! i = Some w \<and>
              (\<forall>j<i. word_ids enc ! j \<noteq> Some w) \<and>
              {j. j < length (word_ids enc) \<and> word_ids enc ! j = Some w \<and> label_mask enc ! j = 1}
                = {i}))"
    by blast
  have ev: "tokenize_and_align_labels ?tk ?toks [1, 2, 0] =
      Inr \<lparr>input_ids = [101, 3698, 4083, 2075, 3992, 102],
           attention_mask = [1, 1, 1, 1, 1, 1],
           word_ids = [None, Some 0, Some 1, Some 1, Some 2, None],
           labels = [0, 1, 2, 0, 0, 0], label_mask = [0, 1, 1, 0, 1, 0]\<rparr>"
    by (simp add: tokenize_and_align_labels_def tag_at_def tokenized.extend_def)
  with enc have e: "labels enc = [0, 1, 2, 0, 0, 0]" "label_mask enc = [0, 1, 1, 0, 1, 0]"
    by auto
  have wi: "word_ids enc = [None, Some 0, Some 1, Some 1, Some 2, None]" using w by simp
  have "word_runs (word_ids enc)" "Some 1 \<in> set (word_ids enc)" by (simp_all add: wi)
  with r obtain i where i: "i < length (word_ids enc)" "word_ids enc ! i = Some 1"
      "\<forall>j<i. word_ids enc ! j \<noteq> Some 1"
      "{j. j < length (word_ids enc) \<and> word_ids enc ! j = Some 1 \<and> label_mask enc ! j = 1} = {i}"
    by blast
  have "\<not> 2 < i"
  proof
    assume "2 < i"
    with i(3) have "word_ids enc ! 2 \<noteq> Some 1" by blast
    then show False by (simp add: wi)
  qed
  moreover have "i \<noteq> 0"
  proof
    assume "i = 0"
    with i(2) show False by (simp add: wi)
  qed
  moreover have "i \<noteq> 1"
  proof
    assume "i = 1"
    with i(2) show False by (simp add: wi)
  qed
  ultimately have "i = 2" by arith
  with i(4) enc e l show ?thesis by blast
qed

theorem label_zero_where_mask_zero_witness:
  "labels \<lparr>input_ids = [101, 3698, 4083, 2075, 3992, 102],
           attention_mask = [1, 1, 1, 1, 1, 1],
           word_ids = [None, Some 0, Some 1, Some 1, Some 2, None],
           labels = [0, 1, 2, 0, 0, 0], label_mask = [0, 1, 1, 0, 1, 0]\<rparr> ! 3 = (0::int) \<and>
   tokenize_and_align_labels
       (\<lambda>ws. \<lparr>input_ids = [101, 3698, 4083, 2075, 3992, 102],
              attention_mask = [1, 1, 1, 1, 1, 1],
              word_ids = [None, Some 0, Some 1, Some 1, Some 2, None]\<rparr>)
       [''machine'', ''learning'', ''engineer''] [1, 2, 0] =
     Inr \<lparr>input_ids = [101, 3698, 4083, 2075, 3992, 102],
           attention_mask = [1, 1, 1, 1, 1, 1],
           word_ids = [None, Some 0, Some 1, Some 1, Some 2, None],
           labels = [0, 1, 2, 0, 0, 0], label_mask = [0, 1, 1, 0, 1, 0]\<rparr>"
proof -
  let ?tk = "\<lambda>ws::string list. \<lparr>input_ids = [101, 3698, 4083, 2075, 3992, 102],
              attention_mask = [1, 1, 1, 1, 1, 1],
              word_ids = [None, Some 0, Some 1, Some 1, Some 2, None]\<rparr>"
  let ?enc = "\<lparr>input_ids = [101, 3698, 4083, 2075, 3992, 102],
           attention_mask = [1, 1, 1, 1, 1, 1],
           word_ids = [None, Some 0, Some 1, Some 1, Some 2, None],
           labels = [0, 1, 2, 0, 0, 0], label_mask = [0, 1, 1, 0, 1, 0]\<rparr>"
  have ev: "tokenize_and_align_labels ?tk [''machine'', ''learning'', ''engineer''] [1, 2, 0] = Inr ?enc"
    by (simp add: tokenize_and_align_labels_def tag_at_def tokenized.extend_def)
  have "3 < length (label_mask ?enc)" "label_mask ?enc ! 3 = 0" by simp_all
  from label_zero_where_mask_zero [OF ev this] ev show ?thesis by blast
qed

text \<open>
  Claim C7 as stated does not hold: the aligner has no length check. With one word and
  two tags it returns an encoding and ignores the second tag.
\<close>

theorem aligner_accepts_longer_tag_list:
  "length [''python''] \<noteq> length [1, 2 :: int] \<and>
   tokenize_and_align_labels
     (\<lambda>ws. \<lparr>input_ids = [101, 18750, 102], attention_mask = [1, 1, 1],
            word_ids = [None, Some 0, None]\<rparr>)
     [''python''] [1, 2] =
   Inr \<lparr>input_ids = [101, 18750, 102], attention_mask = [1, 1, 1],
        word_ids = [None, Some 0, None], labels = [0, 1, 0], label_mask = [0, 1, 0]\<rparr>"
  by (simp add: tokenize_and_align_labels_def tag_at_def tokenized.extend_def)

theorem aligner_raises_iff_witness:
  "tokenize_and_align_labels
     (\<lambda>ws. \<lparr>input_ids = [101, 18750, 9722, 102], attention_mask = [1, 1, 1, 1],
            word_ids = [None, Some 0, Some 1, None]\<rparr>)
     [''python'', ''aws''] [1] = Inl IndexError"
proof -
  let ?tk = "\<lambda>ws::string list. \<lparr>input_ids = [101, 18750, 9722, 102], attention_mask = [1, 1, 1, 1],
            word_ids = [None, Some 0, Some 1, None]\<rparr>"
  have "2 < length (word_ids (?tk [''python'', ''aws''])) \<and>
      word_ids (?tk [''python'', ''aws'']) ! 2 = Some 1 \<and>
      prev_word_id (word_ids (?tk [''python'', ''aws''])) 2 \<noteq> Some 1 \<and> length [1::int] \<le> 1"
    by (simp add: prev_word_id_def)
  then have "\<exists>i<length (word_ids (?tk [''python'', ''aws''])). \<exists>w.
          word_ids (?tk [''python'', ''aws'']) ! i = Some w \<and>
          prev_word_id (word_ids (?tk [''python'', ''aws''])) i \<noteq> Some w \<and> length [1::int] \<le> w"
    by blast
  with aligner_raises_iff [of ?tk "[''python'', ''aws'']" "[1]"] show ?thesis by blast
qed












lemma jobbert_id2label_eval:
  "jobbert_id2label = [(0, ''O''), (1, ''B-SKILL''), (2, ''I-SKILL'')]"
  by (simp add: jobbert_id2label_def jobbert_label2id_def jobbert_label_list_def)

text \<open>
  Claim C3 against the code: a dataset of one batch with one example yields two entries
  in each output collection, the example's lists appended twice.
\<close>

theorem seqeval_appends_each_example_twice:
  "get_seqeval_input (\<lambda>inp. [[0, 2, 0]]) [((), [[0, 1, 0]], [[0, 1, 0]])]
       (map_of jobbert_id2label) =
     Inr ([[''I-SKILL''], [''I-SKILL'']], [[''B-SKILL''], [''B-SKILL'']])"
  by (simp add: get_seqeval_input_def shape0_def shape1_def at2_def lookup_def
      jobbert_id2label_eval upt_rec)


lemma rfind_range: "- 1 \<le> rfind c xs \<and> rfind c xs < int (length xs)"
  by (induction xs) (auto simp: Let_def)

lemma rfind_neg_iff: "rfind c xs < 0 \<longleftrightarrow> c \<notin> set xs"
  using rfind_range [of c] by (induction xs) (auto simp: Let_def)

lemma rfind_append:
  "rfind c (xs @ ys) = (if c \<in> set ys then int (length xs) + rfind c ys else rfind c xs)"
proof (induction xs)
  case Nil
  then show ?case using rfind_neg_iff [of c ys] rfind_range [of c ys] by auto
next
  case (Cons x xs)
  show ?case
  proof (cases "c \<in> set ys")
    case True
    then have "0 \<le> rfind c ys" using rfind_neg_iff [of c ys] by auto
    then show ?thesis using Cons True by (simp add: Let_def)
  next
    case False
    then show ?thesis using Cons by (simp add: Let_def)
  qed
qed

lemma rfind_nth: "0 \<le> rfind c xs \<Longrightarrow> xs ! nat (rfind c xs) = c"
proof (induction xs)
  case Nil
  then show ?case by simp
next
  case (Cons x xs)
  show ?case
  proof (cases "0 \<le> rfind c xs")
    case True
    then have "nat (rfind c xs + 1) = Suc (nat (rfind c xs))" by simp
    then show ?thesis using Cons True by (simp add: Let_def)
  next
    case False
    then show ?thesis using Cons.prems by (auto simp: Let_def split: if_splits)
  qed
qed

lemma rfind_last: "int i < int (length xs) \<Longrightarrow> rfind c xs < int i \<Longrightarrow> xs ! i \<noteq> c"
proof
  assume i: "int i < int (length xs)" and r: "rfind c xs < int i" and eq: "xs ! i = c"
  have xs: "xs = take i xs @ drop i xs" by simp
  have "c \<in> set (drop i xs)"
    using i eq by (metis Cons_nth_drop_Suc list.set_intros(1) of_nat_less_iff)
  then have "rfind c (take i xs @ drop i xs) = int (length (take i xs)) + rfind c (drop i xs)"
    by (simp only: rfind_append if_True)
  moreover have "0 \<le> rfind c (drop i xs)"
    using \<open>c \<in> set (drop i xs)\<close> rfind_neg_iff [of c "drop i xs"] by auto
  moreover have "length (take i xs) = i" using i by simp
  ultimately have "int i \<le> rfind c xs" by simp
  with r show False by simp
qed

lemma rfind_map:
  assumes "\<And>x. f x = c \<longleftrightarrow> x = c"
  shows "rfind c (map f xs) = rfind c xs"
  by (induction xs) (simp_all add: Let_def assms)

lemma skip_leading_dots_eq:
  "dotIndex \<le> length p \<Longrightarrow>
   skip_leading_dots p extsep filenameIndex dotIndex =
     (if \<exists>i. filenameIndex \<le> i \<and> i < dotIndex \<and> p ! i \<noteq> extsep
      then Some (take dotIndex p, drop dotIndex p) else None)"
proof (induction p extsep filenameIndex dotIndex rule: skip_leading_dots.induct)
  case (1 p extsep filenameIndex dotIndex)
  show ?case
  proof (cases "filenameIndex < dotIndex")
    case False
    then show ?thesis by (subst skip_leading_dots.simps) auto
  next
    case True
    then have lt: "filenameIndex < length p" using "1.prems" by simp
    then have sl: "take 1 (drop filenameIndex p) = [p ! filenameIndex]"
      using Cons_nth_drop_Suc [OF lt, symmetric] by simp
    show ?thesis
    proof (cases "p ! filenameIndex = extsep")
      case False
      with True sl show ?thesis by (subst skip_leading_dots.simps) auto
    next
      case eq: True
      have "(\<exists>i. filenameIndex \<le> i \<and> i < dotIndex \<and> p ! i \<noteq> extsep) \<longleftrightarrow>
            (\<exists>i. Suc filenameIndex \<le> i \<and> i < dotIndex \<and> p ! i \<noteq> extsep)"
        using eq by (metis Suc_leI le_neq_implies_less Suc_leD)
      with "1.IH" [OF True _ "1.prems"] True sl eq show ?thesis
        by (subst skip_leading_dots.simps) simp
    qed
  qed
qed

lemma splitext_eq:
  "splitext os p =
     (if has_ext os p then (take (nat (rfind 46 p)) p, drop (nat (rfind 46 p)) p) else (p, []))"
proof -
  have le: "nat (rfind 46 p) \<le> length p" using rfind_range [of 46 p] by arith
  show ?thesis
  proof (cases "has_ext os p")
    case True
    then show ?thesis
      by (cases os)
        (simp_all add: genericpath_splitext_def Let_def skip_leading_dots_eq [OF le]
          has_ext_def sep_index_def)
  next
    case False
    then show ?thesis
      by (cases os)
        (auto simp add: genericpath_splitext_def Let_def skip_leading_dots_eq [OF le]
          has_ext_def sep_index_def)
  qed
qed

lemma sep_index_append:
  assumes "\<forall>c\<in>set ys. \<not> is_sep os c"
  shows "sep_index os (xs @ ys) = sep_index os xs"
proof -
  have "47 \<notin> set ys" using assms by (auto simp: is_sep_def)
  moreover have "os = Nt \<Longrightarrow> 92 \<notin> set ys" using assms by (auto simp: is_sep_def)
  ultimately show ?thesis by (cases os) (simp_all add: sep_index_def rfind_append)
qed

lemma sep_index_range: "- 1 \<le> sep_index os p \<and> sep_index os p < int (length p)"
  using rfind_range [of 47 p] rfind_range [of 92 p] by (cases os) (auto simp: sep_index_def)

lemma after_sep_index:
  assumes "sep_index os p < int i" and "i < length p"
  shows "\<not> is_sep os (p ! i)"
proof -
  have "p ! i \<noteq> 47"
    using assms by (intro rfind_last) (cases os; simp add: sep_index_def)+
  moreover have "p ! i \<noteq> 92" if "os = Nt"
    using assms that by (intro rfind_last) (simp_all add: sep_index_def)
  ultimately show ?thesis by (auto simp: is_sep_def)
qed

lemma splitext_append_ext:
  assumes stem: "\<exists>i. nat (sep_index os stem + 1) \<le> i \<and> i < length stem \<and> stem ! i \<noteq> 46"
    and t: "46 \<notin> set t" "\<forall>c\<in>set t. \<not> is_sep os c"
  shows "splitext os (stem @ 46 # t) = (stem, 46 # t)"
proof -
  let ?p = "stem @ 46 # t"
  have nsep: "\<forall>c\<in>set (46 # t). \<not> is_sep os c" using t(2) by (simp add: is_sep_def)
  have s: "sep_index os ?p = sep_index os stem" using nsep by (rule sep_index_append)
  have "rfind 46 (46 # t) = 0" using t(1) rfind_neg_iff [of 46 t] by (simp add: Let_def)
  then have d: "rfind 46 ?p = int (length stem)" by (simp add: rfind_append del: rfind.simps)
  from stem obtain i where i: "nat (sep_index os stem + 1) \<le> i" "i < length stem" "stem ! i \<noteq> 46"
    by blast
  have "sep_index os ?p < rfind 46 ?p" using s d sep_index_range [of os stem] by simp
  moreover have "nat (sep_index os ?p + 1) \<le> i \<and> i < nat (rfind 46 ?p) \<and> ?p ! i \<noteq> 46"
    using i s d by (simp add: nth_append)
  ultimately have "has_ext os ?p" unfolding has_ext_def by blast
  then show ?thesis by (simp add: splitext_eq d del: rfind.simps)
qed

lemma has_ext_parts:
  assumes "has_ext os p"
  defines "d \<equiv> nat (rfind 46 p)"
  shows "\<exists>t. drop d p = 46 # t \<and> 46 \<notin> set t \<and> (\<forall>c\<in>set t. \<not> is_sep os c) \<and>
           (\<exists>i. nat (sep_index os (take d p) + 1) \<le> i \<and> i < length (take d p) \<and> take d p ! i \<noteq> 46)"
proof -
  from assms(1) have lt: "sep_index os p < rfind 46 p"
    and ex: "\<exists>i. nat (sep_index os p + 1) \<le> i \<and> i < nat (rfind 46 p) \<and> p ! i \<noteq> 46"
    unfolding has_ext_def by blast+
  have r0: "0 \<le> rfind 46 p" using lt sep_index_range [of os p] by simp
  then have dd: "int d = rfind 46 p" by (simp add: d_def)
  have dl: "d < length p" using rfind_range [of 46 p] dd by simp
  have pd: "p ! d = 46" using rfind_nth [OF r0] by (simp add: d_def)
  define t where "t = drop (Suc d) p"
  have dr: "drop d p = 46 # t" using Cons_nth_drop_Suc [OF dl] pd by (simp add: t_def)
  have p: "p = take d p @ 46 # t" using dr by (metis append_take_drop_id)
  have lt_d: "length (take d p) = d" using dl by simp
  have not46: "46 \<notin> set t"
  proof
    assume "46 \<in> set t"
    then have "0 \<le> rfind 46 t" using rfind_neg_iff [of 46 t] by auto
    moreover have "rfind 46 (take d p @ 46 # t) = int d + rfind 46 (46 # t)"
      using lt_d by (simp add: rfind_append del: rfind.simps)
    ultimately have "rfind 46 (take d p @ 46 # t) = int d + (rfind 46 t + 1)"
      by (simp add: Let_def)
    then show False using p dd \<open>0 \<le> rfind 46 t\<close> by simp
  qed
  have nosep: "\<not> is_sep os c" if "c \<in> set t" for c
  proof -
    from that obtain k where k: "k < length t" "t ! k = c" by (auto simp: in_set_conv_nth)
    have "p ! (Suc d + k) = c" using k dl by (simp add: t_def)
    moreover have "Suc d + k < length p" using k by (simp add: t_def)
    moreover have "sep_index os p < int (Suc d + k)" using lt dd by simp
    ultimately show ?thesis using after_sep_index [of os p "Suc d + k"] by simp
  qed
  have nosep': "\<forall>c\<in>set (46 # t). \<not> is_sep os c" using nosep by (simp add: is_sep_def)
  have "sep_index os (take d p @ 46 # t) = sep_index os (take d p)"
    using nosep' by (rule sep_index_append)
  then have s: "sep_index os (take d p) = sep_index os p" using p by simp
  from ex obtain i where i: "nat (sep_index os p + 1) \<le> i" "i < d" "p ! i \<noteq> 46"
    unfolding d_def by blast
  then have "nat (sep_index os (take d p) + 1) \<le> i \<and> i < length (take d p) \<and> take d p ! i \<noteq> 46"
    using s lt_d by simp
  with dr not46 nosep show ?thesis by blast
qed

lemma lower_cp_keeps: "lower_cp x = 46 \<longleftrightarrow> x = 46" "is_sep os (lower_cp x) \<longleftrightarrow> is_sep os x"
  by (auto simp: lower_cp_def is_sep_def)

lemma str_lower_idem: "str_lower (str_lower s) = str_lower s"
  by (simp add: str_lower_def lower_cp_def)

lemma splitext_lowered:
  "splitext os (fst (splitext os p) @ str_lower (snd (splitext os p))) =
     (fst (splitext os p), str_lower (snd (splitext os p)))"
proof (cases "has_ext os p")
  case False
  then show ?thesis by (simp add: splitext_eq str_lower_def)
next
  case True
  let ?d = "nat (rfind 46 p)"
  from has_ext_parts [OF True] obtain t where
    t: "drop ?d p = 46 # t" "46 \<notin> set t" "\<forall>c\<in>set t. \<not> is_sep os c"
    and stem: "\<exists>i. nat (sep_index os (take ?d p) + 1) \<le> i \<and> i < length (take ?d p) \<and> take ?d p ! i \<noteq> 46"
    by blast
  have sp: "splitext os p = (take ?d p, 46 # t)" using True t(1) by (simp add: splitext_eq)
  have l: "str_lower (46 # t) = 46 # str_lower t" by (simp add: str_lower_def lower_cp_def)
  have "46 \<notin> set (str_lower t)"
  proof
    assume "46 \<in> set (str_lower t)"
    then obtain x where "x \<in> set t" "lower_cp x = 46" by (auto simp: str_lower_def)
    then show False using t(2) by (simp add: lower_cp_keeps)
  qed
  moreover have "\<forall>c\<in>set (str_lower t). \<not> is_sep os c"
    using t(3) by (auto simp: str_lower_def lower_cp_keeps)
  ultimately have "46 \<notin> set (str_lower t)" "\<forall>c\<in>set (str_lower t). \<not> is_sep os c"
    by blast+
  from splitext_append_ext [OF stem this] show ?thesis by (simp add: sp l)
qed

lemma cp_simps: "cp [] = []" "cp (c # s) = of_char c # cp s"
  by (simp_all add: cp_def)

lemma extract_text_cases:
  "extract_text os ext filepath =
     (let ty = str_lower (snd (splitext os filepath)) in
      if ty \<in> {cp ''.docx'', cp ''.pdf'', cp ''.txt''}
      then (case extract_text os ext filepath of
              Inl e \<Rightarrow> Inl ExternalError | Inr t \<Rightarrow> Inr t)
      else Inl (ValueError (unsupported_message ty)))"
  by (simp add: extract_text_def Let_def docx_to_text_def pdf_to_text_def
      split: option.splits)

lemma supported_no_ValueError:
  assumes "str_lower (snd (splitext os filepath)) \<in> {cp ''.docx'', cp ''.pdf'', cp ''.txt''}"
  shows "extract_text os ext filepath \<noteq> Inl (ValueError msg)"
proof
  assume a: "extract_text os ext filepath = Inl (ValueError msg)"
  have "extract_text os ext filepath =
      (case extract_text os ext filepath of Inl e \<Rightarrow> Inl ExternalError | Inr t \<Rightarrow> Inr t)"
    using assms by (subst extract_text_cases) (simp add: Let_def)
  with a show False by simp
qed

lemma unsupported_ValueError:
  assumes "str_lower (snd (splitext os filepath)) \<notin> {cp ''.docx'', cp ''.pdf'', cp ''.txt''}"
  shows "extract_text os ext filepath =
     Inl (ValueError (unsupported_message (str_lower (snd (splitext os filepath)))))"
  using assms by (subst extract_text_cases) (simp add: Let_def)

lemma supported_ext_shape:
  assumes "str_lower e \<in> {cp ''.docx'', cp ''.pdf'', cp ''.txt''}"
  shows "\<exists>t. e = 46 # t \<and> 46 \<notin> set t \<and> (\<forall>c\<in>set t. \<not> is_sep os c)"
proof -
  obtain t where low: "str_lower e = 46 # t" "46 \<notin> set t" "\<forall>c\<in>set t. \<not> is_sep os c"
    using assms by (auto simp: cp_simps is_sep_def)
  then obtain x xs where e: "e = x # xs" "lower_cp x = 46" "t = str_lower xs"
    by (cases e) (auto simp: str_lower_def)
  have "x = 46" using e(2) by (simp add: lower_cp_keeps)
  moreover have "46 \<notin> set xs"
  proof
    assume "46 \<in> set xs"
    then have "lower_cp 46 \<in> set (str_lower xs)" unfolding str_lower_def by (metis image_eqI set_map)
    then show False using low(2) e(3) by (simp add: lower_cp_def)
  qed
  moreover have "\<not> is_sep os c" if "c \<in> set xs" for c
  proof -
    have "lower_cp c \<in> set (str_lower xs)" using that unfolding str_lower_def by simp
    then have "\<not> is_sep os (lower_cp c)" using low(3) e(3) by blast
    then show ?thesis by (simp add: lower_cp_keeps)
  qed
  ultimately show ?thesis using e(1) by blast
qed

text \<open>
  Claim C8, amended. The extension is compared after lowercasing. A path whose lowercased
  extension is not one of \<open>.docx\<close>, \<open>.pdf\<close>, \<open>.txt\<close> makes \<open>extract_text\<close> raise the
  unsupported-file-type error, whatever the external calls would do: none of them is
  reached. A path whose lowercased extension is one of the three never raises that
  error.
\<close>

theorem unsupported_iff_lowered_extension:
  "(str_lower (snd (splitext os filepath)) \<notin> {cp ''.docx'', cp ''.pdf'', cp ''.txt''} \<longrightarrow>
      (\<forall>ext. extract_text os ext filepath =
          Inl (ValueError (unsupported_message (str_lower (snd (splitext os filepath))))))) \<and>
   (str_lower (snd (splitext os filepath)) \<in> {cp ''.docx'', cp ''.pdf'', cp ''.txt''} \<longrightarrow>
      (\<forall>ext msg. extract_text os ext filepath \<noteq> Inl (ValueError msg)))"
  using unsupported_ValueError [of os filepath] supported_no_ValueError [of os filepath]
  by blast

text \<open>
  Claim C10. For every path, the path with its extension lowercased has exactly that
  lowercased extension, and \<open>extract_text\<close> treats the path as it treats this lowercase
  counterpart, given the same file contents: the same reader is chosen or the same error
  is raised. The unsupported-file-type error is raised exactly when the lowercased
  extension is outside the three supported ones; in particular a named stem followed by
  \<open>.DOCX\<close>, \<open>.Pdf\<close>, \<open>.TXT\<close> in any letter casing is split at that extension and accepted.
\<close>

theorem extension_dispatch_ignores_case:
  "splitext os (fst (splitext os filepath) @ str_lower (snd (splitext os filepath))) =
     (fst (splitext os filepath), str_lower (snd (splitext os filepath))) \<and>
   extract_text os ext filepath =
     extract_text os
       \<lparr>pandoc_convert_file = \<lambda>p. pandoc_convert_file ext filepath,
        pdfplumber_pages = \<lambda>p. pdfplumber_pages ext filepath,
        open_read = \<lambda>p. open_read ext filepath\<rparr>
       (fst (splitext os filepath) @ str_lower (snd (splitext os filepath))) \<and>
   ((\<exists>msg. extract_text os ext filepath = Inl (ValueError msg)) \<longleftrightarrow>
      str_lower (snd (splitext os filepath)) \<notin> {cp ''.docx'', cp ''.pdf'', cp ''.txt''}) \<and>
   (\<forall>stem e. named_stem os stem \<and> str_lower e \<in> {cp ''.docx'', cp ''.pdf'', cp ''.txt''} \<longrightarrow>
      splitext os (stem @ e) = (stem, e) \<and>
      (\<forall>msg. extract_text os ext (stem @ e) \<noteq> Inl (ValueError msg)))"
proof -
  let ?root = "fst (splitext os filepath)" and ?e = "snd (splitext os filepath)"
  let ?low = "?root @ str_lower ?e"
  have a: "splitext os ?low = (?root, str_lower ?e)" by (rule splitext_lowered)
  then have ty: "str_lower (snd (splitext os ?low)) = str_lower ?e"
    by (simp add: str_lower_idem)
  have b: "extract_text os ext filepath =
     extract_text os
       \<lparr>pandoc_convert_file = \<lambda>p. pandoc_convert_file ext filepath,
        pdfplumber_pages = \<lambda>p. pdfplumber_pages ext filepath,
        open_read = \<lambda>p. open_read ext filepath\<rparr> ?low"
    unfolding extract_text_def ty by (simp add: Let_def docx_to_text_def pdf_to_text_def)
  have c: "(\<exists>msg. extract_text os ext filepath = Inl (ValueError msg)) \<longleftrightarrow>
      str_lower ?e \<notin> {cp ''.docx'', cp ''.pdf'', cp ''.txt''}"
    using unsupported_ValueError [of os filepath ext] supported_no_ValueError [of os filepath ext]
    by blast
  have d: "splitext os (stem @ e) = (stem, e) \<and>
      (\<forall>msg. extract_text os ext (stem @ e) \<noteq> Inl (ValueError msg))"
    if st: "named_stem os stem" and e: "str_lower e \<in> {cp ''.docx'', cp ''.pdf'', cp ''.txt''}"
    for stem e
  proof -
    from supported_ext_shape [OF e, of os] obtain t where
      t: "e = 46 # t" "46 \<notin> set t" "\<forall>c\<in>set t. \<not> is_sep os c" by blast
    have sp: "splitext os (stem @ e) = (stem, e)"
      using splitext_append_ext [OF st [unfolded named_stem_def] t(2,3)] t(1) by simp
    then have "str_lower (snd (splitext os (stem @ e))) \<in> {cp ''.docx'', cp ''.pdf'', cp ''.txt''}"
      using e by simp
    from supported_no_ValueError [OF this] sp show ?thesis by blast
  qed
  from a b c d show ?thesis by blast
qed

lemmas text_eval = extract_text_def genericpath_splitext_def skip_leading_dots.simps
  docx_to_text_def pdf_to_text_def unsupported_message_def
  clean_cv_text_def cp_simps str_lower_def lower_cp_def py_isspace_def
  match_page_footer_def re_digit_def digit_runs_def is_glyph_def strip_def Let_def

text \<open>
  Claim C8 as stated does not hold: the extension of \<open>cv.PDF\<close> is \<open>.PDF\<close>, which is none
  of the three lowercase strings, and the path is read as a PDF.
\<close>

theorem uppercase_extension_is_accepted:
  "snd (splitext Posix (cp ''cv.PDF'')) = cp ''.PDF'' \<and>
   cp ''.PDF'' \<notin> {cp ''.docx'', cp ''.pdf'', cp ''.txt''} \<and>
   extract_text Posix
     \<lparr>pandoc_convert_file = \<lambda>p. None,
      pdfplumber_pages = \<lambda>p. Some [Some (cp ''Python''), None],
      open_read = \<lambda>p. None\<rparr>
     (cp ''cv.PDF'') = Inr (cp ''python'')"
  by (simp add: text_eval)

theorem unsupported_iff_lowered_extension_witness:
  "extract_text Posix
     \<lparr>pandoc_convert_file = \<lambda>p. None, pdfplumber_pages = \<lambda>p. None,
      open_read = \<lambda>p. Some (cp ''Python'')\<rparr>
     (cp ''notes.md'') =
     Inl (ValueError (cp ''Unsupported '' @ [39] @ cp ''.md'' @ [39] @ cp '' file type.'')) \<and>
   extract_text Posix
     \<lparr>pandoc_convert_file = \<lambda>p. None, pdfplumber_pages = \<lambda>p. None,
      open_read = \<lambda>p. Some (cp ''Python'')\<rparr>
     (cp ''cv.TXT'') \<noteq> Inl (ValueError (cp ''Unsupported '' @ [39] @ cp ''.txt'' @ [39] @ cp '' file type.''))"
proof -
  let ?E = "\<lparr>pandoc_convert_file = \<lambda>p. None, pdfplumber_pages = \<lambda>p. None,
      open_read = \<lambda>p. Some (cp ''Python'')\<rparr>"
  have s1: "str_lower (snd (splitext Posix (cp ''notes.md''))) = cp ''.md''"
    by (simp add: text_eval)
  have n1: "cp ''.md'' \<notin> {cp ''.docx'', cp ''.pdf'', cp ''.txt''}"
    by (simp add: cp_simps)
  have s2: "str_lower (snd (splitext Posix (cp ''cv.TXT''))) = cp ''.txt''"
    by (simp add: text_eval)
  have n2: "cp ''.txt'' \<in> {cp ''.docx'', cp ''.pdf'', cp ''.txt''}"
    by simp
  from unsupported_iff_lowered_extension [of Posix "cp ''notes.md''"] s1 n1
  have a: "extract_text Posix ?E (cp ''notes.md'') = Inl (ValueError (unsupported_message (cp ''.md'')))"
    by simp
  from unsupported_iff_lowered_extension [of Posix "cp ''cv.TXT''"] s2 n2
  have b: "extract_text Posix ?E (cp ''cv.TXT'') \<noteq>
      Inl (ValueError (cp ''Unsupported '' @ [39] @ cp ''.txt'' @ [39] @ cp '' file type.''))"
    by simp
  from a b show ?thesis by (simp add: unsupported_message_def)
qed

theorem extension_dispatch_ignores_case_witness:
  "splitext Nt (cp ''docs/cv.pdf'') = (cp ''docs/cv'', cp ''.pdf'') \<and>
   splitext Nt (cp ''docs/cv.Pdf'') = (cp ''docs/cv'', cp ''.Pdf'') \<and>
   extract_text Nt
     \<lparr>pandoc_convert_file = \<lambda>p. None,
      pdfplumber_pages = \<lambda>p. if p = cp ''docs/cv.Pdf'' then Some [Some (cp ''Python'')] else None,
      open_read = \<lambda>p. None\<rparr>
     (cp ''docs/cv.Pdf'') = Inr (cp ''python'')"
proof -
  let ?E = "\<lparr>pandoc_convert_file = \<lambda>p. None,
      pdfplumber_pages = \<lambda>p. if p = cp ''docs/cv.Pdf'' then Some [Some (cp ''Python'')] else None,
      open_read = \<lambda>p. None\<rparr>"
  let ?p = "cp ''docs/cv.Pdf''"
  have sp: "splitext Nt ?p = (cp ''docs/cv'', cp ''.Pdf'')"
    by (simp add: text_eval)
  have low: "fst (splitext Nt ?p) @ str_lower (snd (splitext Nt ?p)) = cp ''docs/cv.pdf''"
    unfolding sp by (simp add: cp_simps str_lower_def lower_cp_def)
  have st: "named_stem Nt (cp ''docs/cv'')"
    unfolding named_stem_def
    by (rule exI [of _ 5]) (simp add: sep_index_def cp_simps Let_def)
  have e: "str_lower (cp ''.Pdf'') \<in> {cp ''.docx'', cp ''.pdf'', cp ''.txt''}"
    by (simp add: cp_simps str_lower_def lower_cp_def)
  note inst = extension_dispatch_ignores_case [of Nt ?p ?E]
  from inst have a: "splitext Nt (cp ''docs/cv.pdf'') = (cp ''docs/cv'', str_lower (cp ''.Pdf''))"
    unfolding low unfolding sp by simp
  from inst st e have b: "splitext Nt (cp ''docs/cv'' @ cp ''.Pdf'') = (cp ''docs/cv'', cp ''.Pdf'')"
    by blast
  have c: "extract_text Nt ?E ?p = Inr (cp ''python'')"
    by (simp add: text_eval)
  from a b c show ?thesis by (simp add: cp_simps str_lower_def lower_cp_def)
qed

lemma set_sub_plus: "set (sub_plus X repl s) \<subseteq> set s \<union> set repl"
proof (induction X repl s rule: sub_plus.induct)
  case (1 X repl)
  then show ?case by simp
next
  case (2 X repl c cs)
  show ?case
  proof (cases "X c")
    case True
    have "set (dropWhile X cs) \<subseteq> set cs" by (auto dest: set_dropWhileD)
    with 2(1) [OF True] True show ?thesis by auto
  next
    case False
    with 2(2) [OF False] show ?thesis by auto
  qed
qed

lemma sub_plus_class:
  "c \<in> set (sub_plus X repl s) \<Longrightarrow> X c \<Longrightarrow> c \<in> set repl"
proof (induction X repl s rule: sub_plus.induct)
  case (1 X repl)
  then show ?case by simp
next
  case (2 X repl d ds)
  show ?case
  proof (cases "X d")
    case True
    with 2(1) [OF True] 2(3,4) show ?thesis by auto
  next
    case False
    with 2(2) [OF False] 2(3,4) show ?thesis by auto
  qed
qed

lemma set_sub_page_footer: "set (sub_page_footer s) \<subseteq> set s"
proof (induction s rule: sub_page_footer.induct)
  case 1
  then show ?case by simp
next
  case (2 c cs)
  show ?case
  proof (cases "match_page_footer (c # cs)")
    case None
    with 2(1) [OF None] show ?thesis by auto
  next
    case (Some n)
    have "set (drop (n - 1) cs) \<subseteq> set cs" by (rule set_drop_subset)
    with 2(2) [OF Some] Some show ?thesis by auto
  qed
qed

lemma set_strip: "set (strip s) \<subseteq> set s"
  unfolding strip_def by (auto dest!: set_dropWhileD)

lemma last_dropWhile: "dropWhile P xs \<noteq> [] \<Longrightarrow> last (dropWhile P xs) = last xs"
  by (induction xs) (auto split: if_splits)

lemma strip_ends:
  assumes "strip s \<noteq> []"
  shows "\<not> py_isspace (hd (strip s)) \<and> \<not> py_isspace (last (strip s))"
proof -
  let ?t = "dropWhile py_isspace s"
  let ?u = "dropWhile py_isspace (rev ?t)"
  have u: "?u \<noteq> []" using assms by (simp add: strip_def)
  have t: "?t \<noteq> []"
  proof
    assume e: "?t = []"
    have "?u = dropWhile py_isspace (rev [])" by (simp only: e)
    then have "?u = []" by (simp only: rev.simps dropWhile.simps)
    with u show False by blast
  qed
  have "last (strip s) = hd ?u" using u by (simp add: strip_def last_rev)
  moreover have "\<not> py_isspace (hd ?u)" using u by (rule hd_dropWhile)
  moreover have "hd (strip s) = last ?u" using u by (simp add: strip_def hd_rev)
  moreover have "last ?u = last (rev ?t)" using u by (rule last_dropWhile)
  moreover have "last (rev ?t) = hd ?t" using t by (simp add: last_rev)
  moreover have "\<not> py_isspace (hd ?t)" using t by (rule hd_dropWhile)
  ultimately show ?thesis by simp
qed

lemma lower_cp_idem: "lower_cp (lower_cp c) = lower_cp c"
  by (simp add: lower_cp_def)

lemma glyph_not_space: "is_glyph c \<Longrightarrow> \<not> py_isspace c"
  by (auto simp: is_glyph_def py_isspace_def)

text \<open>Every character of the cleaned text, traced back through the five passes.\<close>

lemma clean_cv_text_chars:
  assumes "c \<in> set (clean_cv_text text)"
  shows "lower_cp c = c \<and> \<not> is_glyph c \<and> (py_isspace c \<longrightarrow> c = 32)"
proof -
  define t1 where "t1 = str_lower text"
  define t2 where "t2 = sub_plus (\<lambda>c. c = 10) [10] t1"
  define t3 where "t3 = sub_plus py_isspace [32] t2"
  define t4 where "t4 = sub_page_footer t3"
  define t5 where "t5 = map (\<lambda>c. if is_glyph c then 32 else c) t4"
  have out: "clean_cv_text text = strip t5"
    by (simp add: clean_cv_text_def Let_def t1_def t2_def t3_def t4_def t5_def)
  have c5: "c \<in> set t5" using assms set_strip [of t5] by (auto simp: out)
  then obtain d where d: "d \<in> set t4" "c = (if is_glyph d then 32 else d)"
    by (auto simp: t5_def)
  have d3: "d \<in> set t3" using d(1) set_sub_page_footer [of t3] by (auto simp: t4_def)
  have sp: "py_isspace d \<longrightarrow> d = 32"
    using sub_plus_class [of d py_isspace "[32]" t2] d3 by (auto simp: t3_def)
  have "d \<in> set t2 \<or> d = 32" using d3 set_sub_plus [of py_isspace "[32]" t2] by (auto simp: t3_def)
  then have "d \<in> set t1 \<or> d = 10 \<or> d = 32"
    using set_sub_plus [of "\<lambda>c. c = 10" "[10]" t1] by (auto simp: t2_def)
  then have low: "lower_cp d = d"
    by (auto simp: t1_def str_lower_def lower_cp_idem) (simp_all add: lower_cp_def)
  show ?thesis
  proof (cases "is_glyph d")
    case True
    then have "c = 32" using d(2) by simp
    then show ?thesis by (simp add: lower_cp_def is_glyph_def)
  next
    case False
    then have "c = d" using d(2) by simp
    with False low sp show ?thesis by simp
  qed
qed

text \<open>
  What holds of the cleaned text for every input: it has no letter A to Z (lowercasing
  it again in the model changes nothing), every whitespace character in it is a plain
  space, it neither starts nor ends with whitespace, and it contains none of the six
  bullet and dash glyphs.
\<close>

lemma clean_cv_text_output:
  "str_lower (clean_cv_text text) = clean_cv_text text \<and>
   (\<forall>c\<in>set (clean_cv_text text). \<not> (65 \<le> c \<and> c \<le> 90)) \<and>
   (\<forall>c\<in>set (clean_cv_text text). py_isspace c \<longrightarrow> c = 32) \<and>
   (clean_cv_text text \<noteq> [] \<longrightarrow>
      \<not> py_isspace (hd (clean_cv_text text)) \<and> \<not> py_isspace (last (clean_cv_text text))) \<and>
   (\<forall>c\<in>set (clean_cv_text text). \<not> is_glyph c)"
proof -
  have a: "str_lower (clean_cv_text text) = clean_cv_text text"
    using clean_cv_text_chars [of _ "text"] unfolding str_lower_def by (intro map_idI) blast
  have b: "\<not> (65 \<le> c \<and> c \<le> 90)" if "c \<in> set (clean_cv_text text)" for c
  proof
    assume "65 \<le> c \<and> c \<le> 90"
    then have "lower_cp c \<noteq> c" by (simp add: lower_cp_def)
    with clean_cv_text_chars [OF that] show False by simp
  qed
  have d: "clean_cv_text text \<noteq> [] \<longrightarrow>
      \<not> py_isspace (hd (clean_cv_text text)) \<and> \<not> py_isspace (last (clean_cv_text text))"
    using strip_ends unfolding clean_cv_text_def Let_def by blast
  from a b d clean_cv_text_chars [of _ "text"] show ?thesis by blast
qed

text \<open>
  Claim C9 against the code. The whitespace is collapsed to single spaces first (line
  12); the glyphs are turned into spaces afterwards (line 18), so a bullet between two
  spaces leaves three consecutive spaces in the result. The footers are deleted in one
  pass (line 15), and deleting one can join the text around it into a new footer, which
  stays in the result.
\<close>

theorem clean_cv_text_leaves_spaces_and_footer:
  "clean_cv_text (cp ''Skills: '' @ [8226] @ cp '' Python'') = cp ''skills:   python'' \<and>
   clean_cv_text (cp ''page 1page 1 of 2 of 3'') = cp ''page 1 of 3''"
  by (simp add: text_eval)

text \<open>
  The call in main.py passes one positional argument and the keywords \<open>model\<close> and
  \<open>tokenizer\<close>; \<open>extract_skills\<close> has the parameters \<open>input\<close> and \<open>pipeline\<close>.
\<close>

lemma extract_skills_main_call:
  "extract_skills [a] [(''model'', m), (''tokenizer'', t)] = Inl TypeError"
  by (simp add: extract_skills_def bind_arguments_def)

text \<open>So no run of the entry point reaches the loop that prints.\<close>

lemma run_main_pipeline_never_prints:
  "run_main_pipeline os ext h str_score filepath userID userType \<noteq> Inr out"
  by (simp add: run_main_pipeline_def extract_skills_main_call
      split: sum.splits)

text \<open>
  Claim C6 against the code: for the supported path \<open>cv.txt\<close>, a readable file and a
  hub that delivers model and tokenizer, the entry point prints nothing and ends with
  the TypeError of the call to \<open>extract_skills\<close>.
\<close>

theorem run_main_pipeline_raises_TypeError:
  "run_main_pipeline Posix
     \<lparr>pandoc_convert_file = \<lambda>p. None, pdfplumber_pages = \<lambda>p. None,
      open_read = \<lambda>p. Some (cp ''Python developer'')\<rparr>
     \<lparr>tokenizer_from_pretrained = \<lambda>name. Some (), model_from_pretrained = \<lambda>name. Some ()\<rparr>
     (\<lambda>s::nat. str_nat s) (cp ''cv.txt'') 0 (cp ''admin'') = Inl TypeError"
  by (simp add: run_main_pipeline_def extract_skills_main_call load_skillner_def lookup_def
      text_eval)

text \<open>
  The Label Aligner gives the four sequences of an encoding the same length. On such
  encodings \<open>make_dataset\<close> never returns batches: with no encoding at all the components
  have rank 0, with all sequences empty the integer padding values meet float
  components, and otherwise the padding value \<open>0.0\<close> meets the integer loss mask.
\<close>

lemma column_dtype_same_lengths:
  assumes "\<forall>e\<in>set encs. length (f e) = length (g e)"
  shows "column_dtype (map f encs) = column_dtype (map g encs)"
proof -
  have "concat (map f encs) = [] \<longleftrightarrow> concat (map g encs) = []"
    using assms by auto
  then show ?thesis by (simp add: column_dtype_def)
qed

lemma make_dataset_raises_on_aligned:
  assumes "\<forall>e\<in>set encs. length (input_ids e) = length (label_mask e)"
  shows "make_dataset encs b \<noteq> Inr bs"
proof -
  have same: "column_dtype (map input_ids encs) = column_dtype (map label_mask encs)"
    using assms by (rule column_dtype_same_lengths)
  have "map padding_dtype [PyInt 0, PyInt 0, PyInt 0, PyFloat 0] \<noteq>
      map column_dtype [map input_ids encs, map attention_mask encs, map labels encs,
        map label_mask encs]"
    using same by (simp add: padding_dtype_def)
  then show ?thesis
    by (simp add: make_dataset_def Let_def from_tensor_slices_def padded_batch_def
        split: sum.splits)
qed

text \<open>
  Claim C5 against the code: for three aligned encodings of the lengths 3, 4 and 2, as
  the Label Aligner produces them, \<open>make_dataset\<close> raises ValueError where the claim
  expects ceil(3/16) = 1 batch padded to the length 4; for two encodings of equal
  length it raises TypeError, because the padding value of the loss mask is the float
  \<open>0.0\<close> and the loss mask holds integers.
\<close>

theorem make_dataset_raises:
  "make_dataset
     [\<lparr>input_ids = [101, 7, 102], attention_mask = [1, 1, 1],
       word_ids = [None, Some 0, None], labels = [0, 1, 0], label_mask = [0, 1, 0]\<rparr>,
      \<lparr>input_ids = [101, 8, 9, 102], attention_mask = [1, 1, 1, 1],
       word_ids = [None, Some 0, Some 0, None], labels = [0, 2, 0, 0], label_mask = [0, 1, 0, 0]\<rparr>,
      \<lparr>input_ids = [101, 102], attention_mask = [1, 1],
       word_ids = [None, None], labels = [0, 0], label_mask = [0, 0]\<rparr>]
     None = Inl TF_ValueError \<and>
   make_dataset
     [\<lparr>input_ids = [101, 7, 102], attention_mask = [1, 1, 1],
       word_ids = [None, Some 0, None], labels = [0, 1, 0], label_mask = [0, 1, 0]\<rparr>,
      \<lparr>input_ids = [101, 8, 102], attention_mask = [1, 1, 1],
       word_ids = [None, Some 0, None], labels = [0, 2, 0], label_mask = [0, 1, 0]\<rparr>]
     None = Inl TF_TypeError"
  by (simp add: make_dataset_def from_tensor_slices_def padded_batch_def rectangular_def
      component_rank_def column_dtype_def padding_dtype_def)

end
